theory Spec2Isabelle
  imports Complex_Main
begin

section \<open>JavaScript values\<close>

text \<open>
  A JavaScript \<open>number\<close> is a finite value (every double is a rational), \<open>NaN\<close> or an
  infinity. \<open>Number.isInteger\<close>, the comparison \<open>x <= 0\<close> and \<open>BigInt(x)\<close> are the
  operations the driver applies to numbers.
\<close>

datatype js_number = Finite rat | NaN | PosInfinity | NegInfinity

definition Number_isInteger :: "js_number \<Rightarrow> bool" where
  "Number_isInteger x = (case x of Finite q \<Rightarrow> of_int \<lfloor>q\<rfloor> = q | _ \<Rightarrow> False)"

definition le_zero :: "js_number \<Rightarrow> bool" where
  \<comment> \<open>\<open>x <= 0\<close>: false for \<open>NaN\<close>\<close>
  "le_zero x = (case x of Finite q \<Rightarrow> q \<le> 0 | NegInfinity \<Rightarrow> True | _ \<Rightarrow> False)"

datatype js_error =
    Error string
  | TypeError string
  | RangeError string
  | Thrown nat

definition BigInt :: "js_number \<Rightarrow> js_error + int" where
  \<comment> \<open>\<open>BigInt(x)\<close> throws a RangeError unless \<open>x\<close> is an integer\<close>
  "BigInt x =
     (case x of
        Finite q \<Rightarrow>
          if of_int \<lfloor>q\<rfloor> = q then Inr \<lfloor>q\<rfloor>
          else Inl (RangeError ''The number cannot be converted to a BigInt because it is not an integer'')
      | _ \<Rightarrow> Inl (RangeError ''The number cannot be converted to a BigInt because it is not an integer''))"

section \<open>Operation nodes (operation-node/drop-constraint-node.ts)\<close>

text \<open>
  An object is its list of properties, in insertion order, and the flag that
  \<open>Object.freeze\<close> sets. A property holds a string or another object.
\<close>

datatype js_object = Object (frozen: bool) (properties: "(string \<times> js_prop) list")
  and js_prop = PString string | PObject js_object

definition get_prop :: "js_object \<Rightarrow> string \<Rightarrow> js_prop option" where
  "get_prop node name = map_of (properties node) name"

definition child_nodes :: "js_object \<Rightarrow> js_object list" where
  "child_nodes node = concat (map (\<lambda>(name, p). case p of PObject n \<Rightarrow> [n] | PString s \<Rightarrow> []) (properties node))"

definition freeze :: "js_object \<Rightarrow> js_object" where
  \<comment> \<open>Modelled from the spec: \<open>freeze\<close> of util/object-utils is not among the sources;
      a factory "returns a frozen node", so it marks the object itself frozen.\<close>
  "freeze obj = Object True (properties obj)"

definition dropConstraintNode_is :: "js_object \<Rightarrow> bool" where
  "dropConstraintNode_is node = (get_prop node ''kind'' = Some (PString ''DropConstraintNode''))"

definition dropConstraintNode_create :: "(string \<Rightarrow> js_object) \<Rightarrow> string \<Rightarrow> js_object" where
  \<comment> \<open>\<open>identifierNode.create\<close> (operation-node/identifier-node.ts) is the first argument\<close>
  "dropConstraintNode_create identifierNode_create constraintName =
     freeze (Object False
       [(''kind'', PString ''DropConstraintNode''),
        (''constraintName'', PObject (identifierNode_create constraintName))])"

section \<open>The native client library\<close>

text \<open>
  Pools, clients and cursors of the \<open>pg\<close> library are objects outside the repository. Each is
  known by its identity (a \<open>handle\<close>). The world records every call the driver makes on
  them, in order, and counts the wrapper objects allocated so far. What a native call
  answers is not fixed by the driver: the record \<open>natives\<close> gives, for each kind of call,
  the answer as a function of the calls made so far (the call being answered is the last
  one), so that a statement for every \<open>natives\<close> holds for every behaviour of the library.
  The callbacks of the configuration are answered in the same way. The record also says
  which clients have a \<open>release\<close> method, and holds \<open>err \<mapsto> extendStackTrace(err, new Error())\<close>
  of util/stack-trace-utils, which is not among the sources.
\<close>

type_synonym handle = nat

record PostgresConnection =
  ref :: nat  \<comment> \<open>the identity of the wrapper object\<close>
  priv_client :: handle  \<comment> \<open>\<open>#client\<close>\<close>
  priv_options_cursor :: "handle option"  \<comment> \<open>\<open>#options.cursor\<close>, \<open>None\<close> for \<open>null\<close>\<close>

record 'v CompiledQuery =
  sql :: string
  parameters :: "'v list"

record 'v PostgresQueryResult =
  command :: string
  rowCount :: js_number
  result_rows :: "'v list option"  \<comment> \<open>\<open>rows\<close>, \<open>None\<close> for \<open>undefined\<close> or \<open>null\<close>\<close>

record 'v QueryResult =
  numUpdatedOrDeletedRows :: "int option"
  numAffectedRows :: "int option"
  rows :: "'v list"

datatype 'v native_call =
    ConfigPool  \<comment> \<open>\<open>config.pool()\<close>\<close>
  | ConfigClient  \<comment> \<open>\<open>config.client()\<close>\<close>
  | PoolConnect handle  \<comment> \<open>\<open>pool.connect()\<close>\<close>
  | PoolEnd handle  \<comment> \<open>\<open>pool.end()\<close>\<close>
  | ClientConnect handle  \<comment> \<open>\<open>client.connect()\<close>\<close>
  | ClientEnd handle  \<comment> \<open>\<open>client.end()\<close>\<close>
  | ClientRelease handle  \<comment> \<open>\<open>client.release()\<close>\<close>
  | ClientQuery handle string "'v list"  \<comment> \<open>\<open>client.query(sql, parameters)\<close>\<close>
  | NewCursor handle string "'v list"  \<comment> \<open>\<open>new cursor(sql, parameters)\<close>\<close>
  | ClientQueryCursor handle handle  \<comment> \<open>\<open>client.query(cursor)\<close>\<close>
  | CursorRead handle js_number  \<comment> \<open>\<open>cursor.read(chunkSize)\<close>\<close>
  | CursorClose handle  \<comment> \<open>\<open>cursor.close()\<close>\<close>
  | OnCreateConnection PostgresConnection  \<comment> \<open>\<open>config.onCreateConnection(connection)\<close>\<close>

record 'v world =
  calls :: "'v native_call list"
  allocated :: nat

record 'v natives =
  config_pool :: "'v native_call list \<Rightarrow> js_error + handle"
  config_client :: "'v native_call list \<Rightarrow> js_error + handle"
  pool_connect :: "'v native_call list \<Rightarrow> js_error + handle"
  pool_end :: "'v native_call list \<Rightarrow> js_error + unit"
  client_connect :: "'v native_call list \<Rightarrow> js_error + unit"
  client_end :: "'v native_call list \<Rightarrow> js_error + unit"
  client_query :: "'v native_call list \<Rightarrow> js_error + 'v PostgresQueryResult"
  new_cursor :: "'v native_call list \<Rightarrow> js_error + handle"
  client_query_cursor :: "'v native_call list \<Rightarrow> js_error + handle"
  cursor_read :: "'v native_call list \<Rightarrow> js_error + 'v list"
  cursor_close :: "'v native_call list \<Rightarrow> js_error + unit"
  on_create_connection :: "'v native_call list \<Rightarrow> js_error + unit"
  client_release :: "'v native_call list \<Rightarrow> js_error + unit"
  has_release :: "handle \<Rightarrow> bool"  \<comment> \<open>\<open>client.release !== undefined\<close>\<close>
  extendStackTrace :: "js_error \<Rightarrow> js_error"

definition call ::
  "('v native_call list \<Rightarrow> js_error + 'a) \<Rightarrow> 'v native_call \<Rightarrow> 'v world
     \<Rightarrow> (js_error + 'a) \<times> 'v world" where
  \<comment> \<open>a native call: it is recorded, then answered (\<open>Inl\<close>: it throws or rejects)\<close>
  "call answer c w = (let w' = w\<lparr>calls := calls w @ [c]\<rparr> in (answer (calls w'), w'))"

section \<open>The dialect configuration\<close>

text \<open>
  \<open>PostgresDialectPoolConfig | PostgresDialectClientConfig\<close>: \<open>pool\<close> and \<open>client\<close> are an
  instance or a function returning one; a property that is absent is \<open>None\<close>.
\<close>

datatype lazy = Instance handle | Function

record PostgresDialectConfig =
  pool :: "lazy option"
  client :: "lazy option"
  cursor :: "handle option"
  onCreateConnection :: "unit option"

definition isPoolConfig :: "PostgresDialectConfig \<Rightarrow> bool" where
  "isPoolConfig config = (pool config \<noteq> None)"

definition resolve ::
  "lazy option \<Rightarrow> ('v native_call list \<Rightarrow> js_error + handle) \<Rightarrow> 'v native_call \<Rightarrow> 'v world
     \<Rightarrow> (js_error + handle option) \<times> 'v world" where
  \<comment> \<open>\<open>isFunction(x) ? await x() : x\<close>\<close>
  "resolve x answer c w =
     (case x of
        Some Function \<Rightarrow>
          (case call answer c w of
             (Inl e, w') \<Rightarrow> (Inl e, w')
           | (Inr h, w') \<Rightarrow> (Inr (Some h), w'))
      | Some (Instance h) \<Rightarrow> (Inr (Some h), w)
      | None \<Rightarrow> (Inr None, w))"

section \<open>The connection wrapper (class PostgresConnection): queries and release\<close>

definition executeQuery ::
  "'v natives \<Rightarrow> PostgresConnection \<Rightarrow> 'v CompiledQuery \<Rightarrow> 'v world
     \<Rightarrow> (js_error + 'v QueryResult) \<times> 'v world" where
  \<comment> \<open>whatever the \<open>try\<close> block throws goes through \<open>extendStackTrace\<close>\<close>
  "executeQuery env this compiledQuery w =
     (case call (client_query env)
             (ClientQuery (priv_client this) (sql compiledQuery) (parameters compiledQuery)) w of
        (Inl err, w') \<Rightarrow> (Inl (extendStackTrace env err), w')
      | (Inr result, w') \<Rightarrow>
          if command result = ''INSERT'' \<or> command result = ''UPDATE''
             \<or> command result = ''DELETE''
          then
            (case BigInt (rowCount result) of
               Inl err \<Rightarrow> (Inl (extendStackTrace env err), w')
             | Inr n \<Rightarrow>
                 (Inr \<lparr>numUpdatedOrDeletedRows = Some n, numAffectedRows = Some n,
                       rows = (case result_rows result of Some r \<Rightarrow> r | None \<Rightarrow> [])\<rparr>, w'))
          else
            (Inr \<lparr>numUpdatedOrDeletedRows = None, numAffectedRows = None,
                  rows = (case result_rows result of Some r \<Rightarrow> r | None \<Rightarrow> [])\<rparr>, w'))"

definition isPoolClient :: "'v natives \<Rightarrow> handle \<Rightarrow> bool" where
  "isPoolClient env c = has_release env c"

definition PRIVATE_RELEASE_METHOD ::
  "'v natives \<Rightarrow> PostgresConnection \<Rightarrow> 'v world \<Rightarrow> (js_error + unit) \<times> 'v world" where
  "PRIVATE_RELEASE_METHOD env this w =
     (if isPoolClient env (priv_client this)
      then call (client_release env) (ClientRelease (priv_client this)) w
      else (Inr (), w))"

section \<open>The driver (dialect/postgres/postgres-driver.ts)\<close>

record PostgresDriver =
  priv_config :: PostgresDialectConfig  \<comment> \<open>\<open>#config\<close>\<close>
  priv_connections :: "handle \<rightharpoonup> PostgresConnection"  \<comment> \<open>\<open>#connections\<close>, the WeakMap\<close>
  priv_pool :: "handle option"  \<comment> \<open>\<open>#pool\<close>\<close>
  priv_singleClient :: "handle option"  \<comment> \<open>\<open>#singleClient\<close>\<close>
  priv_singleConnection :: "PostgresConnection option"  \<comment> \<open>\<open>#singleConnection\<close>\<close>

definition new_PostgresDriver :: "PostgresDialectConfig \<Rightarrow> PostgresDriver" where
  "new_PostgresDriver config =
     \<lparr>priv_config = config, priv_connections = Map.empty, priv_pool = None,
      priv_singleClient = None, priv_singleConnection = None\<rparr>"

definition new_PostgresConnection ::
  "handle \<Rightarrow> handle option \<Rightarrow> 'v world \<Rightarrow> PostgresConnection \<times> 'v world" where
  \<comment> \<open>\<open>new PostgresConnection(client, {cursor})\<close>: a fresh object\<close>
  "new_PostgresConnection c cur w =
     (\<lparr>ref = allocated w, priv_client = c, priv_options_cursor = cur\<rparr>,
      w\<lparr>allocated := Suc (allocated w)\<rparr>)"

definition init ::
  "'v natives \<Rightarrow> PostgresDriver \<Rightarrow> 'v world \<Rightarrow> (js_error + unit) \<times> PostgresDriver \<times> 'v world" where
  "init env d w =
     (if isPoolConfig (priv_config d) then
        (case resolve (pool (priv_config d)) (config_pool env) ConfigPool w of
           (Inl e, w') \<Rightarrow> (Inl e, d, w')
         | (Inr p, w') \<Rightarrow> (Inr (), d\<lparr>priv_pool := p\<rparr>, w'))
      else (Inr (), d, w))"

definition acquireConnection ::
  "'v natives \<Rightarrow> PostgresDriver \<Rightarrow> 'v world
     \<Rightarrow> (js_error + PostgresConnection) \<times> PostgresDriver \<times> 'v world" where
  "acquireConnection env d w =
     (if \<not> isPoolConfig (priv_config d) then
        (case priv_singleConnection d of
           Some connection \<Rightarrow> (Inr connection, d, w)
         | None \<Rightarrow>
             (case resolve (client (priv_config d)) (config_client env) ConfigClient w of
                (Inl e, w1) \<Rightarrow> (Inl e, d, w1)
              | (Inr singleClient, w1) \<Rightarrow>
                  (let d1 = d\<lparr>priv_singleClient := singleClient\<rparr> in
                   case singleClient of
                     None \<Rightarrow> (Inl (TypeError ''Cannot read properties of undefined''), d1, w1)
                   | Some c \<Rightarrow>
                       (case call (client_connect env) (ClientConnect c) w1 of
                          (Inl e, w2) \<Rightarrow> (Inl e, d1, w2)
                        | (Inr u, w2) \<Rightarrow>
                            (case new_PostgresConnection c (cursor (priv_config d)) w2 of
                               (connection, w3) \<Rightarrow>
                                 (Inr connection,
                                  d1\<lparr>priv_singleConnection := Some connection\<rparr>, w3))))))
      else
        (case priv_pool d of
           None \<Rightarrow> (Inl (TypeError ''Cannot read properties of undefined''), d, w)
         | Some p \<Rightarrow>
             (case call (pool_connect env) (PoolConnect p) w of
                (Inl e, w1) \<Rightarrow> (Inl e, d, w1)
              | (Inr c, w1) \<Rightarrow>
                  (case priv_connections d c of
                     Some connection \<Rightarrow> (Inr connection, d, w1)
                   | None \<Rightarrow>
                       (case new_PostgresConnection c (cursor (priv_config d)) w1 of
                          (connection, w2) \<Rightarrow>
                            (let d1 = d\<lparr>priv_connections := (priv_connections d)(c \<mapsto> connection)\<rparr> in
                             case onCreateConnection (priv_config d) of
                               None \<Rightarrow> (Inr connection, d1, w2)
                             | Some hook \<Rightarrow>
                                 (case call (on_create_connection env) (OnCreateConnection connection) w2 of
                                    (Inl e, w3) \<Rightarrow> (Inl e, d1, w3)
                                  | (Inr u, w3) \<Rightarrow> (Inr connection, d1, w3))))))))"

definition destroy ::
  "'v natives \<Rightarrow> PostgresDriver \<Rightarrow> 'v world \<Rightarrow> (js_error + unit) \<times> PostgresDriver \<times> 'v world" where
  "destroy env d w =
     (case priv_singleClient d of
        Some c \<Rightarrow>
          (case call (client_end env) (ClientEnd c) w of (r, w') \<Rightarrow> (r, d, w'))
      | None \<Rightarrow>
          (case priv_pool d of
             Some p \<Rightarrow>
               (let d1 = d\<lparr>priv_pool := None\<rparr> in
                case call (pool_end env) (PoolEnd p) w of (r, w') \<Rightarrow> (r, d1, w'))
           | None \<Rightarrow> (Inr (), d, w)))"

record TransactionSettings =
  isolationLevel :: "string option"

definition CompiledQuery_raw :: "string \<Rightarrow> 'v CompiledQuery" where
  \<comment> \<open>Modelled from the spec: \<open>CompiledQuery.raw\<close> of query-compiler/compiled-query is not
      among the sources; a compiled query is SQL text and its parameters, here none.\<close>
  "CompiledQuery_raw text = \<lparr>sql = text, parameters = []\<rparr>"

definition await_void ::
  "(js_error + 'a) \<times> 'v world \<Rightarrow> PostgresDriver
     \<Rightarrow> (js_error + unit) \<times> PostgresDriver \<times> 'v world" where
  \<comment> \<open>\<open>await\<close> of a call whose value is dropped, in a method that changes no field\<close>
  "await_void x d = (case x of (Inl e, w') \<Rightarrow> (Inl e, d, w') | (Inr v, w') \<Rightarrow> (Inr (), d, w'))"

definition beginTransaction ::
  "'v natives \<Rightarrow> PostgresConnection \<Rightarrow> TransactionSettings \<Rightarrow> PostgresDriver \<Rightarrow> 'v world
     \<Rightarrow> (js_error + unit) \<times> PostgresDriver \<times> 'v world" where
  \<comment> \<open>\<open>if (settings.isolationLevel)\<close>: an absent level and the empty string are falsy\<close>
  "beginTransaction env connection settings d w =
     (case isolationLevel settings of
        Some level \<Rightarrow>
          if level \<noteq> []
          then await_void (executeQuery env connection
                 (CompiledQuery_raw (''start transaction isolation level '' @ level)) w) d
          else await_void (executeQuery env connection (CompiledQuery_raw ''begin'') w) d
      | None \<Rightarrow> await_void (executeQuery env connection (CompiledQuery_raw ''begin'') w) d)"

definition commitTransaction ::
  "'v natives \<Rightarrow> PostgresConnection \<Rightarrow> PostgresDriver \<Rightarrow> 'v world
     \<Rightarrow> (js_error + unit) \<times> PostgresDriver \<times> 'v world" where
  "commitTransaction env connection d w =
     await_void (executeQuery env connection (CompiledQuery_raw ''commit'') w) d"

definition rollbackTransaction ::
  "'v natives \<Rightarrow> PostgresConnection \<Rightarrow> PostgresDriver \<Rightarrow> 'v world
     \<Rightarrow> (js_error + unit) \<times> PostgresDriver \<times> 'v world" where
  "rollbackTransaction env connection d w =
     await_void (executeQuery env connection (CompiledQuery_raw ''rollback'') w) d"

definition releaseConnection ::
  "'v natives \<Rightarrow> PostgresConnection \<Rightarrow> PostgresDriver \<Rightarrow> 'v world
     \<Rightarrow> (js_error + unit) \<times> PostgresDriver \<times> 'v world" where
  "releaseConnection env connection d w =
     await_void (PRIVATE_RELEASE_METHOD env connection w) d"

section \<open>The connection wrapper: streaming\<close>

text \<open>
  \<open>streamQuery\<close> is an async generator. Calling it runs none of its body: it returns a
  generator object, suspended at the start. The consumer drives the object with \<open>next()\<close>,
  \<open>return()\<close> and \<open>throw(e)\<close>; the object is suspended at the start, suspended at the
  \<open>yield\<close> (inside the \<open>try\<close>, holding the cursor) or completed.
\<close>

datatype generator_state = SuspendedStart | SuspendedYield handle | Completed

record 'v generator =
  this :: PostgresConnection
  compiledQuery :: "'v CompiledQuery"
  chunkSize :: js_number
  state :: generator_state

datatype 'a iterator_result = Value 'a | Done

definition streamQuery :: "PostgresConnection \<Rightarrow> 'v CompiledQuery \<Rightarrow> js_number \<Rightarrow> 'v generator" where
  "streamQuery conn q n = \<lparr>this = conn, compiledQuery = q, chunkSize = n, state = SuspendedStart\<rparr>"

definition finally_block ::
  "'v natives \<Rightarrow> handle \<Rightarrow> js_error + 'a \<Rightarrow> 'v generator \<Rightarrow> 'v world
     \<Rightarrow> (js_error + 'a) \<times> 'v generator \<times> 'v world" where
  \<comment> \<open>\<open>finally { await cursor.close() }\<close>: the block is left with the completion it was
      entered with, unless \<open>close\<close> throws\<close>
  "finally_block env cur completion g w =
     (case call (cursor_close env) (CursorClose cur) w of
        (Inl e, w') \<Rightarrow> (Inl e, g\<lparr>state := Completed\<rparr>, w')
      | (Inr u, w') \<Rightarrow> (completion, g\<lparr>state := Completed\<rparr>, w'))"

definition loop ::
  "'v natives \<Rightarrow> handle \<Rightarrow> 'v generator \<Rightarrow> 'v world
     \<Rightarrow> (js_error + 'v QueryResult iterator_result) \<times> 'v generator \<times> 'v world" where
  \<comment> \<open>the body of \<open>while (true)\<close>, from its head to the next \<open>yield\<close>, \<open>break\<close> or throw\<close>
  "loop env cur g w =
     (case call (cursor_read env) (CursorRead cur (chunkSize g)) w of
        (Inl e, w1) \<Rightarrow> finally_block env cur (Inl e) g w1
      | (Inr rs, w1) \<Rightarrow>
          if length rs = 0 then finally_block env cur (Inr Done) g w1
          else (Inr (Value \<lparr>numUpdatedOrDeletedRows = None, numAffectedRows = None, rows = rs\<rparr>),
                g\<lparr>state := SuspendedYield cur\<rparr>, w1))"

definition missing_cursor :: string where
  "missing_cursor = '''cursor' is not present in your postgres dialect config. It's required to make streaming work in postgres.''"

definition bad_chunkSize :: string where
  "bad_chunkSize = ''chunkSize must be a positive integer''"

definition gen_next ::
  "'v natives \<Rightarrow> 'v generator \<Rightarrow> 'v world
     \<Rightarrow> (js_error + 'v QueryResult iterator_result) \<times> 'v generator \<times> 'v world" where
  "gen_next env g w =
     (case state g of
        Completed \<Rightarrow> (Inr Done, g, w)
      | SuspendedYield cur \<Rightarrow> loop env cur g w
      | SuspendedStart \<Rightarrow>
          (case priv_options_cursor (this g) of
             None \<Rightarrow> (Inl (Error missing_cursor), g\<lparr>state := Completed\<rparr>, w)
           | Some ctor \<Rightarrow>
               if \<not> Number_isInteger (chunkSize g) \<or> le_zero (chunkSize g)
               then (Inl (Error bad_chunkSize), g\<lparr>state := Completed\<rparr>, w)
               else
                 (case call (new_cursor env)
                         (NewCursor ctor (sql (compiledQuery g)) (parameters (compiledQuery g))) w of
                    (Inl e, w1) \<Rightarrow> (Inl e, g\<lparr>state := Completed\<rparr>, w1)
                  | (Inr c, w1) \<Rightarrow>
                      (case call (client_query_cursor env)
                              (ClientQueryCursor (priv_client (this g)) c) w1 of
                         (Inl e, w2) \<Rightarrow> (Inl e, g\<lparr>state := Completed\<rparr>, w2)
                       | (Inr cur, w2) \<Rightarrow> loop env cur g w2))))"

definition gen_return ::
  "'v natives \<Rightarrow> 'v generator \<Rightarrow> 'v world
     \<Rightarrow> (js_error + 'v QueryResult iterator_result) \<times> 'v generator \<times> 'v world" where
  \<comment> \<open>\<open>return()\<close>: a return completion at the point of suspension\<close>
  "gen_return env g w =
     (case state g of
        Completed \<Rightarrow> (Inr Done, g, w)
      | SuspendedYield cur \<Rightarrow> finally_block env cur (Inr Done) g w
      | SuspendedStart \<Rightarrow> (Inr Done, g\<lparr>state := Completed\<rparr>, w))"

definition gen_throw ::
  "'v natives \<Rightarrow> js_error \<Rightarrow> 'v generator \<Rightarrow> 'v world
     \<Rightarrow> (js_error + 'v QueryResult iterator_result) \<times> 'v generator \<times> 'v world" where
  \<comment> \<open>\<open>throw(e)\<close>: a throw completion at the point of suspension\<close>
  "gen_throw env e g w =
     (case state g of
        Completed \<Rightarrow> (Inl e, g, w)
      | SuspendedYield cur \<Rightarrow> finally_block env cur (Inl e) g w
      | SuspendedStart \<Rightarrow> (Inl e, g\<lparr>state := Completed\<rparr>, w))"

datatype request = Next | Return | Throw js_error

definition resume ::
  "'v natives \<Rightarrow> request \<Rightarrow> 'v generator \<Rightarrow> 'v world
     \<Rightarrow> (js_error + 'v QueryResult iterator_result) \<times> 'v generator \<times> 'v world" where
  "resume env r g w =
     (case r of Next \<Rightarrow> gen_next env g w | Return \<Rightarrow> gen_return env g w
      | Throw e \<Rightarrow> gen_throw env e g w)"

fun consume ::
  "'v natives \<Rightarrow> request list \<Rightarrow> 'v generator \<Rightarrow> 'v world
     \<Rightarrow> (js_error + 'v QueryResult iterator_result) list \<times> 'v generator \<times> 'v world" where
  "consume env [] g w = ([], g, w)"
| "consume env (r # rs) g w =
     (case resume env r g w of
        (x, g', w') \<Rightarrow> (case consume env rs g' w' of (xs, g'', w'') \<Rightarrow> (x # xs, g'', w'')))"

text \<open>
  A consumer that iterates to the end (\<open>for await (const batch of stream)\<close>) calls
  \<open>next()\<close> until the generator is done or \<open>next()\<close> rejects, and collects the batches. The
  generator may yield for ever, so the consumer has fuel: \<open>None\<close> when it runs out.
\<close>

fun exhaust ::
  "'v natives \<Rightarrow> nat \<Rightarrow> 'v generator \<Rightarrow> 'v world
     \<Rightarrow> ((js_error + 'v QueryResult list) \<times> 'v generator \<times> 'v world) option" where
  "exhaust env 0 g w = None"
| "exhaust env (Suc fuel) g w =
     (case gen_next env g w of
        (Inl e, g', w') \<Rightarrow> Some (Inl e, g', w')
      | (Inr Done, g', w') \<Rightarrow> Some (Inr [], g', w')
      | (Inr (Value batch), g', w') \<Rightarrow>
          (case exhaust env fuel g' w' of
             None \<Rightarrow> None
           | Some (Inl e, g'', w'') \<Rightarrow> Some (Inl e, g'', w'')
           | Some (Inr batches, g'', w'') \<Rightarrow> Some (Inr (batch # batches), g'', w'')))"

definition batch :: "'v list \<Rightarrow> 'v QueryResult" where
  \<comment> \<open>what the generator yields for the rows of one read: \<open>{ rows }\<close>\<close>
  "batch rs = \<lparr>numUpdatedOrDeletedRows = None, numAffectedRows = None, rows = rs\<rparr>"

definition read_calls :: "'v native_call list \<Rightarrow> handle list" where
  \<comment> \<open>the cursors that \<open>read\<close> was called on, in order\<close>
  "read_calls cs = concat (map (\<lambda>c. case c of CursorRead cur k \<Rightarrow> [cur] | _ \<Rightarrow> []) cs)"

definition close_calls :: "'v native_call list \<Rightarrow> handle list" where
  \<comment> \<open>the cursors that \<open>close\<close> was called on, in order\<close>
  "close_calls cs = concat (map (\<lambda>c. case c of CursorClose cur \<Rightarrow> [cur] | _ \<Rightarrow> []) cs)"

definition closed_when_done :: "'v generator \<Rightarrow> 'v world \<Rightarrow> bool" where
  \<comment> \<open>no cursor is read before the generator starts; while it is suspended at the \<open>yield\<close>
      its cursor has been read and not closed; once it is completed, the cursor that was
      read, if any, has been closed once\<close>
  "closed_when_done g w =
     (case state g of
        SuspendedStart \<Rightarrow> read_calls (calls w) = [] \<and> close_calls (calls w) = []
      | SuspendedYield cur \<Rightarrow> set (read_calls (calls w)) = {cur} \<and> close_calls (calls w) = []
      | Completed \<Rightarrow>
          if read_calls (calls w) = [] then close_calls (calls w) = []
          else \<exists>cur. set (read_calls (calls w)) = {cur} \<and> close_calls (calls w) = [cur])"

definition ended :: "(js_error + 'a iterator_result) list \<Rightarrow> bool" where
  \<comment> \<open>the consumer has seen the sequence end: one of the results it was given is not a
      batch (it is \<open>done\<close>, or a rejection)\<close>
  "ended xs = (\<exists>x \<in> set xs. case x of Inr (Value b) \<Rightarrow> False | _ \<Rightarrow> True)"

text \<open>
  What the spec expects of a stream over \<open>xs\<close>: batches of up to \<open>k\<close> rows, one per non-empty
  read, until a read gives no rows.
\<close>

fun batches_of :: "nat \<Rightarrow> 'v list \<Rightarrow> 'v list list" where
  "batches_of k xs = (if k = 0 \<or> xs = [] then [] else take k xs # batches_of k (drop k xs))"

declare batches_of.simps [simp del]

text \<open>
  A caller of the driver calls its methods one after the other, each awaited before the
  next; \<open>run\<close> gives the outcome of each call and the driver and world at the end.
\<close>

datatype operation =
    Init
  | AcquireConnection
  | BeginTransaction PostgresConnection TransactionSettings
  | CommitTransaction PostgresConnection
  | RollbackTransaction PostgresConnection
  | ReleaseConnection PostgresConnection
  | Destroy

datatype outcome = Failed js_error | Returned | Acquired PostgresConnection

definition settled ::
  "(js_error + unit) \<times> PostgresDriver \<times> 'v world \<Rightarrow> outcome \<times> PostgresDriver \<times> 'v world" where
  "settled x =
     (case x of (Inl e, d', w') \<Rightarrow> (Failed e, d', w') | (Inr u, d', w') \<Rightarrow> (Returned, d', w'))"

definition step ::
  "'v natives \<Rightarrow> operation \<Rightarrow> PostgresDriver \<Rightarrow> 'v world \<Rightarrow> outcome \<times> PostgresDriver \<times> 'v world" where
  "step env op d w =
     (case op of
        Init \<Rightarrow> settled (init env d w)
      | AcquireConnection \<Rightarrow>
          (case acquireConnection env d w of
             (Inl e, d', w') \<Rightarrow> (Failed e, d', w') | (Inr c, d', w') \<Rightarrow> (Acquired c, d', w'))
      | BeginTransaction connection settings \<Rightarrow>
          settled (beginTransaction env connection settings d w)
      | CommitTransaction connection \<Rightarrow> settled (commitTransaction env connection d w)
      | RollbackTransaction connection \<Rightarrow> settled (rollbackTransaction env connection d w)
      | ReleaseConnection connection \<Rightarrow> settled (releaseConnection env connection d w)
      | Destroy \<Rightarrow> settled (destroy env d w))"

fun run ::
  "'v natives \<Rightarrow> operation list \<Rightarrow> PostgresDriver \<Rightarrow> 'v world
     \<Rightarrow> outcome list \<times> PostgresDriver \<times> 'v world" where
  "run env [] d w = ([], d, w)"
| "run env (op # ops) d w =
     (case step env op d w of
        (r, d', w') \<Rightarrow> (case run env ops d' w' of (rs, d'', w'') \<Rightarrow> (r # rs, d'', w'')))"

definition start :: "'v world" where
  "start = \<lparr>calls = [], allocated = 0\<rparr>"

definition outcomes ::
  "'v natives \<Rightarrow> operation list \<Rightarrow> PostgresDriver \<Rightarrow> 'v world \<Rightarrow> outcome list" where
  "outcomes env ops d w = fst (run env ops d w)"

definition driver_after ::
  "'v natives \<Rightarrow> operation list \<Rightarrow> PostgresDriver \<Rightarrow> 'v world \<Rightarrow> PostgresDriver" where
  "driver_after env ops d w = fst (snd (run env ops d w))"

definition world_after ::
  "'v natives \<Rightarrow> operation list \<Rightarrow> PostgresDriver \<Rightarrow> 'v world \<Rightarrow> 'v world" where
  "world_after env ops d w = snd (snd (run env ops d w))"

definition hook_calls :: "handle \<Rightarrow> 'v native_call list \<Rightarrow> 'v native_call list" where
  \<comment> \<open>the calls of \<open>onCreateConnection\<close> made for a wrapper of the native client \<open>h\<close>\<close>
  "hook_calls h cs =
     filter (\<lambda>c. case c of OnCreateConnection conn \<Rightarrow> priv_client conn = h | _ \<Rightarrow> False) cs"

definition failed_acquisitions :: "operation list \<Rightarrow> outcome list \<Rightarrow> nat" where
  \<comment> \<open>how many of the calls were \<open>acquireConnection()\<close> calls that failed\<close>
  "failed_acquisitions ops rs =
     length (filter (\<lambda>(op, r). op = AcquireConnection \<and> (case r of Failed e \<Rightarrow> True | _ \<Rightarrow> False))
               (zip ops rs))"

section \<open>Sample behaviours of the native library\<close>

definition obliging :: "'v natives" where
  \<comment> \<open>every call succeeds; queries and reads give no rows; the pool hands out client 3\<close>
  "obliging =
     \<lparr>config_pool = (\<lambda>h. Inr 1), config_client = (\<lambda>h. Inr 2), pool_connect = (\<lambda>h. Inr 3),
      pool_end = (\<lambda>h. Inr ()), client_connect = (\<lambda>h. Inr ()), client_end = (\<lambda>h. Inr ()),
      client_query = (\<lambda>h. Inr \<lparr>command = ''SELECT'', rowCount = Finite 0, result_rows = Some []\<rparr>),
      new_cursor = (\<lambda>h. Inr 4), client_query_cursor = (\<lambda>h. Inr 4),
      cursor_read = (\<lambda>h. Inr []), cursor_close = (\<lambda>h. Inr ()),
      on_create_connection = (\<lambda>h. Inr ()), client_release = (\<lambda>h. Inr ()),
      has_release = (\<lambda>c. c = 3), extendStackTrace = (\<lambda>err. err)\<rparr>"

text \<open>
  A cursor over the rows \<open>xs\<close>, as pg-cursor behaves: \<open>read(n)\<close> gives the next \<open>n\<close> rows, fewer
  when fewer are left, none at the end. The rows already given are those requested by the
  earlier reads.
\<close>

definition requested :: "'v native_call \<Rightarrow> nat" where
  "requested c = (case c of CursorRead cur (Finite n) \<Rightarrow> nat \<lfloor>n\<rfloor> | _ \<Rightarrow> 0)"

definition serving :: "'v list \<Rightarrow> 'v natives" where
  "serving xs =
     obliging\<lparr>cursor_read :=
       (\<lambda>h. Inr (take (requested (last h)) (drop (sum_list (map requested (butlast h))) xs)))\<rparr>"

definition failing_read :: "'v natives" where
  \<comment> \<open>every \<open>read\<close> is rejected\<close>
  "failing_read = obliging\<lparr>cursor_read := (\<lambda>h. Inl (Thrown 1))\<rparr>"

definition pool_config :: PostgresDialectConfig where
  \<comment> \<open>\<open>{ pool: async () => new Pool(...), cursor: Cursor, onCreateConnection }\<close>\<close>
  "pool_config = \<lparr>pool = Some Function, client = None, cursor = Some 0, onCreateConnection = Some ()\<rparr>"

definition client_config :: PostgresDialectConfig where
  \<comment> \<open>\<open>{ client: async () => new Client(...), cursor: Cursor }\<close>\<close>
  "client_config = \<lparr>pool = None, client = Some Function, cursor = Some 0, onCreateConnection = None\<rparr>"

definition flaky :: "'v natives" where
  \<comment> \<open>the factory gives a new client at every call; the first \<open>connect()\<close> is rejected\<close>
  "flaky = obliging\<lparr>config_client := (\<lambda>h. Inr (10 + length h)),
                    client_connect := (\<lambda>h. if length h \<le> 2 then Inl (Thrown 0) else Inr ())\<rparr>"



definition bare :: PostgresConnection where
  \<comment> \<open>a wrapper of a driver configured without \<open>cursor\<close>\<close>
  "bare = \<lparr>ref = 0, priv_client = 2, priv_options_cursor = None\<rparr>"

definition streaming :: PostgresConnection where
  \<comment> \<open>a wrapper of a driver configured with \<open>cursor\<close>\<close>
  "streaming = \<lparr>ref = 0, priv_client = 2, priv_options_cursor = Some 0\<rparr>"

section \<open>Invariants of the driver\<close>

definition wraps :: "PostgresDriver \<Rightarrow> bool" where
  \<comment> \<open>every wrapper registered in \<open>#connections\<close> wraps the client it is registered for\<close>
  "wraps d \<longleftrightarrow> (\<forall>h c. priv_connections d h = Some c \<longrightarrow> priv_client c = h)"

definition hooked :: "PostgresDriver \<Rightarrow> 'v world \<Rightarrow> handle \<Rightarrow> bool" where
  \<comment> \<open>the hook was not called for \<open>h\<close> before \<open>h\<close> has a wrapper, and at most once, with
      that wrapper, since\<close>
  "hooked d w h \<longleftrightarrow>
     (case priv_connections d h of
        None \<Rightarrow> hook_calls h (calls w) = []
      | Some c \<Rightarrow>
          hook_calls h (calls w) = [] \<or> hook_calls h (calls w) = [OnCreateConnection c])"

lemmas driver_defs = step_def settled_def init_def acquireConnection_def destroy_def resolve_def
  call_def new_PostgresConnection_def Let_def

lemmas driver_splits = operation.splits option.splits sum.splits prod.splits lazy.splits if_splits

lemma hook_calls_Nil [simp]: "hook_calls h [] = []"
  by (simp add: hook_calls_def)

lemma hook_calls_Cons [simp]:
  "hook_calls h (c # cs) =
     (case c of OnCreateConnection conn \<Rightarrow> if priv_client conn = h then [c] else [] | _ \<Rightarrow> [])
     @ hook_calls h cs"
  by (simp add: hook_calls_def split: native_call.splits)

lemma hook_calls_append [simp]: "hook_calls h (xs @ ys) = hook_calls h xs @ hook_calls h ys"
  by (simp add: hook_calls_def)


text \<open>
  The transaction methods and \<open>releaseConnection\<close> change no field of the driver; they make
  at most one native call, a query or a \<open>release\<close> of a client.
\<close>

lemma executeQuery_calls:
  "executeQuery env c q w = (r, w')
   \<Longrightarrow> w' = w\<lparr>calls := calls w @ [ClientQuery (priv_client c) (sql q) (parameters q)]\<rparr>"
  by (auto simp: executeQuery_def call_def Let_def split: sum.splits prod.splits if_splits)

lemma await_void_executeQuery:
  "await_void (executeQuery env c q w) d = (r, d', w')
   \<Longrightarrow> d' = d \<and> w' = w\<lparr>calls := calls w @ [ClientQuery (priv_client c) (sql q) (parameters q)]\<rparr>"
  by (cases "executeQuery env c q w")
     (auto simp: await_void_def split: sum.splits dest: executeQuery_calls)

lemma step_passing:
  assumes "op \<noteq> Init" and "op \<noteq> AcquireConnection" and "op \<noteq> Destroy"
      and "step env op d w = (r, d', w')"
  shows "d' = d" and "r \<noteq> Acquired c"
    and "count_list (calls w') ConfigClient = count_list (calls w) ConfigClient"
    and "hook_calls h (calls w') = hook_calls h (calls w)"
proof -
  have "d' = d \<and> r \<noteq> Acquired c
      \<and> (w' = w \<or> (\<exists>k s ps. w' = w\<lparr>calls := calls w @ [ClientQuery k s ps]\<rparr>)
          \<or> (\<exists>k. w' = w\<lparr>calls := calls w @ [ClientRelease k]\<rparr>))"
  proof (cases op)
    case (BeginTransaction conn settings)
    with assms(4) obtain x where "beginTransaction env conn settings d w = (x, d', w')"
      and "r \<noteq> Acquired c"
      by (auto simp: step_def settled_def split: prod.splits sum.splits)
    then show ?thesis
      by (auto simp: beginTransaction_def split: option.splits if_splits
          dest!: await_void_executeQuery)
  next
    case (CommitTransaction conn)
    with assms(4) obtain x where "commitTransaction env conn d w = (x, d', w')"
      and "r \<noteq> Acquired c"
      by (auto simp: step_def settled_def split: prod.splits sum.splits)
    then show ?thesis
      by (auto simp: commitTransaction_def dest!: await_void_executeQuery)
  next
    case (RollbackTransaction conn)
    with assms(4) obtain x where "rollbackTransaction env conn d w = (x, d', w')"
      and "r \<noteq> Acquired c"
      by (auto simp: step_def settled_def split: prod.splits sum.splits)
    then show ?thesis
      by (auto simp: rollbackTransaction_def dest!: await_void_executeQuery)
  next
    case (ReleaseConnection conn)
    with assms(4) obtain x where "releaseConnection env conn d w = (x, d', w')"
      and "r \<noteq> Acquired c"
      by (auto simp: step_def settled_def split: prod.splits sum.splits)
    then show ?thesis
      by (auto simp: releaseConnection_def PRIVATE_RELEASE_METHOD_def await_void_def call_def
          Let_def split: if_splits sum.splits)
  qed (use assms(1-3) in simp_all)
  then show "d' = d" and "r \<noteq> Acquired c"
    and "count_list (calls w') ConfigClient = count_list (calls w) ConfigClient"
    and "hook_calls h (calls w') = hook_calls h (calls w)"
    by auto
qed

lemma step_config: "step env op d w = (r, d', w') \<Longrightarrow> priv_config d' = priv_config d"
proof (cases "op = Init \<or> op = AcquireConnection \<or> op = Destroy")
  case True
  then show "step env op d w = (r, d', w') \<Longrightarrow> priv_config d' = priv_config d"
    by (auto simp: driver_defs split: driver_splits)
next
  case False
  then show "step env op d w = (r, d', w') \<Longrightarrow> priv_config d' = priv_config d"
    using step_passing(1) [of op env d w r d'] by simp
qed

lemma run_config: "run env ops d w = (rs, d', w') \<Longrightarrow> priv_config d' = priv_config d"
proof (induction ops arbitrary: d w rs)
  case Nil
  then show ?case by simp
next
  case (Cons op ops)
  then show ?case
    by (auto split: prod.splits dest!: step_config)
qed

lemma run_Cons_elim:
  assumes "run env (op # ops) d w = (rs, d', w')"
  obtains r d1 w1 rs1 where "step env op d w = (r, d1, w1)" "run env ops d1 w1 = (rs1, d', w')"
    "rs = r # rs1"
  using assms by (auto split: prod.splits)

lemma failed_acquisitions_Nil [simp]: "failed_acquisitions [] rs = 0"
  by (simp add: failed_acquisitions_def)

lemma failed_acquisitions_Cons [simp]:
  "failed_acquisitions (op # ops) (r # rs) =
     (if op = AcquireConnection \<and> (\<exists>e. r = Failed e) then 1 else 0) + failed_acquisitions ops rs"
  by (auto simp: failed_acquisitions_def split: outcome.splits)

lemma step_single_cached:
  "\<not> isPoolConfig (priv_config d) \<Longrightarrow> priv_singleConnection d = Some c
   \<Longrightarrow> priv_singleClient d = Some h
   \<Longrightarrow> step env op d w = (r, d', w')
   \<Longrightarrow> d' = d \<and> count_list (calls w') ConfigClient = count_list (calls w) ConfigClient
       \<and> (op = AcquireConnection \<longrightarrow> r = Acquired c \<and> w' = w)
       \<and> (op \<noteq> AcquireConnection \<longrightarrow> (\<forall>c'. r \<noteq> Acquired c'))"
proof (cases "op = Init \<or> op = AcquireConnection \<or> op = Destroy")
  case True
  assume "\<not> isPoolConfig (priv_config d)" "priv_singleConnection d = Some c"
    "priv_singleClient d = Some h" "step env op d w = (r, d', w')"
  with True show ?thesis
    by (auto simp: driver_defs split: driver_splits)
next
  case False
  assume "step env op d w = (r, d', w')"
  with False step_passing [of op env d w r d' w'] show ?thesis
    by auto
qed

lemma step_single_uncached:
  "\<not> isPoolConfig (priv_config d) \<Longrightarrow> priv_singleConnection d = None
   \<Longrightarrow> step env op d w = (r, d', w')
   \<Longrightarrow> priv_config d' = priv_config d
       \<and> (case r of
             Acquired c \<Rightarrow> op = AcquireConnection \<and> priv_singleConnection d' = Some c
                            \<and> priv_singleClient d' = Some (priv_client c)
           | Failed e \<Rightarrow> priv_singleConnection d' = None
           | Returned \<Rightarrow> priv_singleConnection d' = None \<and> op \<noteq> AcquireConnection)
       \<and> count_list (calls w') ConfigClient
            = count_list (calls w) ConfigClient
              + (if op = AcquireConnection \<and> client (priv_config d) = Some Function then 1 else 0)"
proof (cases "op = Init \<or> op = AcquireConnection \<or> op = Destroy")
  case True
  assume "\<not> isPoolConfig (priv_config d)" "priv_singleConnection d = None"
    "step env op d w = (r, d', w')"
  with True show ?thesis
    by (auto simp: driver_defs split: driver_splits)
next
  case False
  assume s: "step env op d w = (r, d', w')" and n: "priv_singleConnection d = None"
  from False s have "d' = d" and "\<forall>c. r \<noteq> Acquired c"
    and "count_list (calls w') ConfigClient = count_list (calls w) ConfigClient"
    using step_passing [of op env d w r d' w'] by auto
  with False n show ?thesis
    by (cases r) auto
qed

lemma run_single_cached:
  "\<not> isPoolConfig (priv_config d) \<Longrightarrow> priv_singleConnection d = Some c
   \<Longrightarrow> priv_singleClient d = Some h
   \<Longrightarrow> run env ops d w = (rs, d', w')
   \<Longrightarrow> d' = d \<and> count_list (calls w') ConfigClient = count_list (calls w) ConfigClient
       \<and> (\<forall>c'. Acquired c' \<in> set rs \<longrightarrow> c' = c) \<and> failed_acquisitions ops rs = 0"
proof (induction ops arbitrary: w rs)
  case Nil
  then show ?case by simp
next
  case (Cons op ops)
  from Cons.prems(4) obtain r d1 w1 rs1 where
    s: "step env op d w = (r, d1, w1)" and r: "run env ops d1 w1 = (rs1, d', w')"
    and rs: "rs = r # rs1"
    by (rule run_Cons_elim)
  have d1: "d1 = d"
    and cnt: "count_list (calls w1) ConfigClient = count_list (calls w) ConfigClient"
    and acq: "op = AcquireConnection \<longrightarrow> r = Acquired c"
    and other: "op \<noteq> AcquireConnection \<longrightarrow> (\<forall>c'. r \<noteq> Acquired c')"
    using step_single_cached [OF Cons.prems(1-3) s] by blast+
  from r d1 have r': "run env ops d w1 = (rs1, d', w')" by simp
  have ih: "d' = d"
    "count_list (calls w') ConfigClient = count_list (calls w1) ConfigClient"
    "\<forall>c'. Acquired c' \<in> set rs1 \<longrightarrow> c' = c" "failed_acquisitions ops rs1 = 0"
    using Cons.IH [OF Cons.prems(1-3) r'] by blast+
  have f: "failed_acquisitions (op # ops) (r # rs1) = 0"
    using acq ih(4) by (cases "op = AcquireConnection") simp_all
  have a: "\<forall>c'. Acquired c' \<in> set (r # rs1) \<longrightarrow> c' = c"
    using acq other ih(3) by (cases "op = AcquireConnection") auto
  show ?case
    unfolding rs using ih(1) ih(2) cnt f a by simp
qed

lemma run_single_uncached:
  "\<not> isPoolConfig (priv_config d) \<Longrightarrow> priv_singleConnection d = None
   \<Longrightarrow> run env ops d w = (rs, d', w')
   \<Longrightarrow> (\<forall>c. Acquired c \<in> set rs \<longrightarrow>
          priv_singleConnection d' = Some c \<and> priv_singleClient d' = Some (priv_client c))
       \<and> count_list (calls w') ConfigClient
            = count_list (calls w) ConfigClient
              + (if client (priv_config d) = Some Function
                 then failed_acquisitions ops rs + (if \<exists>c. Acquired c \<in> set rs then 1 else 0)
                 else 0)"
proof (induction ops arbitrary: d w rs)
  case Nil
  then show ?case by simp
next
  case (Cons op ops)
  from Cons.prems(3) obtain r d1 w1 rs1 where
    s: "step env op d w = (r, d1, w1)" and r: "run env ops d1 w1 = (rs1, d', w')"
    and rs: "rs = r # rs1"
    by (rule run_Cons_elim)
  note h = step_single_uncached [OF Cons.prems(1,2) s]
  from h have cfg: "priv_config d1 = priv_config d" by blast
  from h have cnt: "count_list (calls w1) ConfigClient
      = count_list (calls w) ConfigClient
        + (if op = AcquireConnection \<and> client (priv_config d) = Some Function then 1 else 0)"
    by blast
  from Cons.prems(1) cfg have single: "\<not> isPoolConfig (priv_config d1)" by simp
  show ?case
  proof (cases r)
    case (Acquired c)
    with h have c: "op = AcquireConnection" "priv_singleConnection d1 = Some c"
      "priv_singleClient d1 = Some (priv_client c)" by simp_all
    have k: "d' = d1"
      "count_list (calls w') ConfigClient = count_list (calls w1) ConfigClient"
      "\<forall>c'. Acquired c' \<in> set rs1 \<longrightarrow> c' = c" "failed_acquisitions ops rs1 = 0"
      using run_single_cached [OF single c(2,3) r] by blast+
    have 1: "\<forall>c'. Acquired c' \<in> set (r # rs1) \<longrightarrow>
          priv_singleConnection d' = Some c' \<and> priv_singleClient d' = Some (priv_client c')"
      using k(1,3) c(2,3) Acquired by auto
    have 2: "failed_acquisitions (op # ops) (r # rs1) = 0"
      using k(4) Acquired by simp
    have 3: "\<exists>c. Acquired c \<in> set (r # rs1)"
      using Acquired by auto
    show ?thesis
      unfolding rs using 1 2 3 k(2) cnt c(1) by simp
  next
    case (Failed e)
    with h have n: "priv_singleConnection d1 = None" by simp
    note ih = Cons.IH [OF single n r]
    have 1: "\<forall>c'. Acquired c' \<in> set (r # rs1) \<longrightarrow>
          priv_singleConnection d' = Some c' \<and> priv_singleClient d' = Some (priv_client c')"
      using ih Failed by simp
    have 2: "failed_acquisitions (op # ops) (r # rs1)
        = (if op = AcquireConnection then 1 else 0) + failed_acquisitions ops rs1"
      using Failed by simp
    have 3: "(\<exists>c. Acquired c \<in> set (r # rs1)) = (\<exists>c. Acquired c \<in> set rs1)"
      using Failed by simp
    from ih have 4: "count_list (calls w') ConfigClient
            = count_list (calls w1) ConfigClient
              + (if client (priv_config d1) = Some Function
                 then failed_acquisitions ops rs1 + (if \<exists>c. Acquired c \<in> set rs1 then 1 else 0)
                 else 0)" by blast
    show ?thesis
      unfolding rs 2 3 using 1 4 cnt cfg by simp
  next
    case Returned
    with h have n: "priv_singleConnection d1 = None" and o: "op \<noteq> AcquireConnection" by simp_all
    note ih = Cons.IH [OF single n r]
    have 1: "\<forall>c'. Acquired c' \<in> set (r # rs1) \<longrightarrow>
          priv_singleConnection d' = Some c' \<and> priv_singleClient d' = Some (priv_client c')"
      using ih Returned by simp
    have 2: "failed_acquisitions (op # ops) (r # rs1) = failed_acquisitions ops rs1"
      using Returned by simp
    have 3: "(\<exists>c. Acquired c \<in> set (r # rs1)) = (\<exists>c. Acquired c \<in> set rs1)"
      using Returned by simp
    from ih have 4: "count_list (calls w') ConfigClient
            = count_list (calls w1) ConfigClient
              + (if client (priv_config d1) = Some Function
                 then failed_acquisitions ops rs1 + (if \<exists>c. Acquired c \<in> set rs1 then 1 else 0)
                 else 0)" by blast
    show ?thesis
      unfolding rs 2 3 using 1 4 cnt cfg o by simp
  qed
qed

lemma run_new_single:
  assumes "\<not> isPoolConfig config"
      and "Acquired c \<in> set (outcomes env ops (new_PostgresDriver config) start)"
  shows "priv_singleConnection (driver_after env ops (new_PostgresDriver config) start) = Some c"
    and "priv_singleClient (driver_after env ops (new_PostgresDriver config) start)
           = Some (priv_client c)"
    and "priv_config (driver_after env ops (new_PostgresDriver config) start) = config"
    and "count_list (calls (world_after env ops (new_PostgresDriver config) start)) ConfigClient
           = (if client config = Some Function
              then Suc (failed_acquisitions ops (outcomes env ops (new_PostgresDriver config) start))
              else 0)"
proof -
  obtain rs d w where r: "run env ops (new_PostgresDriver config) start = (rs, d, w)"
    by (metis prod_cases3)
  have n: "priv_singleConnection (new_PostgresDriver config) = None"
    and c: "priv_config (new_PostgresDriver config) = config"
    by (simp_all add: new_PostgresDriver_def)
  from assms(1) c have p: "\<not> isPoolConfig (priv_config (new_PostgresDriver config))" by simp
  note u = run_single_uncached [OF p n r]
  from assms(2) r have a: "Acquired c \<in> set rs" by (simp add: outcomes_def)
  from u a r show "priv_singleConnection (driver_after env ops (new_PostgresDriver config) start) = Some c"
    by (simp add: driver_after_def)
  from u a r show "priv_singleClient (driver_after env ops (new_PostgresDriver config) start)
           = Some (priv_client c)"
    by (simp add: driver_after_def)
  show "priv_config (driver_after env ops (new_PostgresDriver config) start) = config"
    by (metis r c run_config driver_after_def fst_conv snd_conv)
  from a have "\<exists>c. Acquired c \<in> set rs" by blast
  with u r c show "count_list (calls (world_after env ops (new_PostgresDriver config) start)) ConfigClient
           = (if client config = Some Function
              then Suc (failed_acquisitions ops (outcomes env ops (new_PostgresDriver config) start))
              else 0)"
    by (simp add: world_after_def outcomes_def start_def)
qed


lemma step_pool_single:
  "step env op d w = (r, d', w') \<Longrightarrow> isPoolConfig (priv_config d) \<Longrightarrow> priv_singleClient d = None
   \<Longrightarrow> priv_singleClient d' = None"
proof (cases "op = Init \<or> op = AcquireConnection \<or> op = Destroy")
  case True
  assume "step env op d w = (r, d', w')" "isPoolConfig (priv_config d)"
    "priv_singleClient d = None"
  with True show ?thesis
    by (auto simp: driver_defs split: driver_splits)
next
  case False
  assume "step env op d w = (r, d', w')" "priv_singleClient d = None"
  with False step_passing(1) [of op env d w r d'] show ?thesis
    by simp
qed

lemma run_pool_single:
  "run env ops d w = (rs, d', w') \<Longrightarrow> isPoolConfig (priv_config d) \<Longrightarrow> priv_singleClient d = None
   \<Longrightarrow> priv_singleClient d' = None"
proof (induction ops arbitrary: d w rs)
  case Nil
  then show ?case by simp
next
  case (Cons op ops)
  from Cons.prems(1) obtain r d1 w1 rs1 where
    s: "step env op d w = (r, d1, w1)" and r: "run env ops d1 w1 = (rs1, d', w')"
    by (rule run_Cons_elim)
  from s Cons.prems(2) have "isPoolConfig (priv_config d1)"
    using step_config by metis
  moreover from s Cons.prems(2,3) have "priv_singleClient d1 = None"
    by (rule step_pool_single)
  ultimately show ?case using Cons.IH r by blast
qed


lemma init_pool_inv:
  "init env d w = (r, d', w') \<Longrightarrow>
     priv_connections d' = priv_connections d \<and> hook_calls h (calls w') = hook_calls h (calls w)"
  by (auto simp: init_def resolve_def call_def Let_def split: driver_splits)

lemma destroy_pool_inv:
  "destroy env d w = (r, d', w') \<Longrightarrow>
     priv_connections d' = priv_connections d \<and> hook_calls h (calls w') = hook_calls h (calls w)"
  by (auto simp: destroy_def call_def Let_def split: driver_splits)

lemma acquire_pool_wraps:
  assumes "isPoolConfig (priv_config d)" and "wraps d"
      and "acquireConnection env d w = (r, d', w')"
  shows "wraps d'"
    and "priv_connections d h = Some c \<Longrightarrow> priv_connections d' h = Some c"
    and "r = Inr c \<Longrightarrow> priv_connections d' (priv_client c) = Some c"
    and "r = Inr c \<Longrightarrow> \<exists>p. priv_pool d = Some p
                 \<and> pool_connect env (calls w @ [PoolConnect p]) = Inr (priv_client c)"
  using assms
  by (auto simp: acquireConnection_def call_def new_PostgresConnection_def Let_def wraps_def
      split: driver_splits)

lemma acquire_pool_hooked:
  assumes "isPoolConfig (priv_config d)" and "hooked d w h"
      and "acquireConnection env d w = (r, d', w')"
  shows "hooked d' w' h"
  using assms
  by (auto simp: acquireConnection_def call_def new_PostgresConnection_def Let_def hooked_def
      split: driver_splits)


lemma step_pool_inv:
  assumes "isPoolConfig (priv_config d)" and "wraps d" and "hooked d w h"
      and "step env op d w = (r, d', w')"
  shows "wraps d'" and "hooked d' w' h"
    and "priv_connections d k = Some c \<Longrightarrow> priv_connections d' k = Some c"
    and "r = Acquired c \<Longrightarrow> priv_connections d' (priv_client c) = Some c"
proof -
  have "wraps d' \<and> hooked d' w' h
      \<and> (priv_connections d k = Some c \<longrightarrow> priv_connections d' k = Some c)
      \<and> (r = Acquired c \<longrightarrow> priv_connections d' (priv_client c) = Some c)"
  proof (cases op)
    case Init
    with assms(4) obtain x where "init env d w = (x, d', w')" and "r \<noteq> Acquired c"
      by (auto simp: step_def settled_def split: prod.splits sum.splits)
    with init_pool_inv [of env d w x d' w' h] assms(2,3) show ?thesis
      by (auto simp: wraps_def hooked_def split: option.splits)
  next
    case Destroy
    with assms(4) obtain x where "destroy env d w = (x, d', w')" and "r \<noteq> Acquired c"
      by (auto simp: step_def settled_def split: prod.splits sum.splits)
    with destroy_pool_inv [of env d w x d' w' h] assms(2,3) show ?thesis
      by (auto simp: wraps_def hooked_def split: option.splits)
  next
    case AcquireConnection
    with assms(4) obtain x where a: "acquireConnection env d w = (x, d', w')"
      and x: "r = Acquired c \<longrightarrow> x = Inr c"
      by (auto simp: step_def split: prod.splits sum.splits)
    from acquire_pool_wraps [OF assms(1,2) a] acquire_pool_hooked [OF assms(1,3) a] x
    show ?thesis by blast
  next
    case (BeginTransaction conn settings)
    then have o: "op \<noteq> Init" "op \<noteq> AcquireConnection" "op \<noteq> Destroy"
      by simp_all
    note p = step_passing [OF o assms(4)]
    from p(1) p(2) [of c] p(4) [of h] assms(2,3) show ?thesis
      by (auto simp: hooked_def split: option.splits)
  next
    case (CommitTransaction conn)
    then have o: "op \<noteq> Init" "op \<noteq> AcquireConnection" "op \<noteq> Destroy"
      by simp_all
    note p = step_passing [OF o assms(4)]
    from p(1) p(2) [of c] p(4) [of h] assms(2,3) show ?thesis
      by (auto simp: hooked_def split: option.splits)
  next
    case (RollbackTransaction conn)
    then have o: "op \<noteq> Init" "op \<noteq> AcquireConnection" "op \<noteq> Destroy"
      by simp_all
    note p = step_passing [OF o assms(4)]
    from p(1) p(2) [of c] p(4) [of h] assms(2,3) show ?thesis
      by (auto simp: hooked_def split: option.splits)
  next
    case (ReleaseConnection conn)
    then have o: "op \<noteq> Init" "op \<noteq> AcquireConnection" "op \<noteq> Destroy"
      by simp_all
    note p = step_passing [OF o assms(4)]
    from p(1) p(2) [of c] p(4) [of h] assms(2,3) show ?thesis
      by (auto simp: hooked_def split: option.splits)
  qed
  then show "wraps d'" and "hooked d' w' h"
    and "priv_connections d k = Some c \<Longrightarrow> priv_connections d' k = Some c"
    and "r = Acquired c \<Longrightarrow> priv_connections d' (priv_client c) = Some c"
    by blast+
qed

lemma run_pool_inv:
  "isPoolConfig (priv_config d) \<Longrightarrow> wraps d \<Longrightarrow> hooked d w h
   \<Longrightarrow> run env ops d w = (rs, d', w')
   \<Longrightarrow> wraps d' \<and> hooked d' w' h
       \<and> (\<forall>k c. priv_connections d k = Some c \<longrightarrow> priv_connections d' k = Some c)
       \<and> (\<forall>c. Acquired c \<in> set rs \<longrightarrow> priv_connections d' (priv_client c) = Some c)"
proof (induction ops arbitrary: d w rs)
  case Nil
  then show ?case by simp
next
  case (Cons op ops)
  from Cons.prems(4) obtain r d1 w1 rs1 where
    s: "step env op d w = (r, d1, w1)" and r: "run env ops d1 w1 = (rs1, d', w')"
    and rs: "rs = r # rs1"
    by (rule run_Cons_elim)
  from s Cons.prems(1) have p: "isPoolConfig (priv_config d1)"
    using step_config by metis
  note h = step_pool_inv [OF Cons.prems(1-3) s]
  have ih: "wraps d'" "hooked d' w' h"
    "\<forall>k c. priv_connections d1 k = Some c \<longrightarrow> priv_connections d' k = Some c"
    "\<forall>c. Acquired c \<in> set rs1 \<longrightarrow> priv_connections d' (priv_client c) = Some c"
    using Cons.IH [OF p h(1,2) r] by blast+
  have 1: "\<forall>k c. priv_connections d k = Some c \<longrightarrow> priv_connections d' k = Some c"
    using h(3) ih(3) by blast
  have 2: "\<forall>c. Acquired c \<in> set (r # rs1) \<longrightarrow> priv_connections d' (priv_client c) = Some c"
    using h(4) ih(3,4) by auto
  show ?case
    unfolding rs using ih(1,2) 1 2 by blast
qed


lemma half_not_int: "(5 / 2 :: rat) \<notin> \<int>"
proof
  assume "(5 / 2 :: rat) \<in> \<int>"
  then obtain z :: int where "(5 / 2 :: rat) = of_int z" by (rule Ints_cases)
  then have "(5 :: rat) = of_int (2 * z)" by simp
  then have "(5 :: int) = 2 * z" by (metis of_int_eq_iff of_int_numeral)
  then show False by presburger
qed


section \<open>Invariants of the generator\<close>

lemma read_calls_Nil [simp]: "read_calls [] = []"
  by (simp add: read_calls_def)

lemma read_calls_Cons [simp]:
  "read_calls (c # cs) = (case c of CursorRead cur k \<Rightarrow> [cur] | _ \<Rightarrow> []) @ read_calls cs"
  by (simp add: read_calls_def)

lemma read_calls_append [simp]: "read_calls (xs @ ys) = read_calls xs @ read_calls ys"
  by (simp add: read_calls_def)

lemma close_calls_Nil [simp]: "close_calls [] = []"
  by (simp add: close_calls_def)

lemma close_calls_Cons [simp]:
  "close_calls (c # cs) = (case c of CursorClose cur \<Rightarrow> [cur] | _ \<Rightarrow> []) @ close_calls cs"
  by (simp add: close_calls_def)

lemma close_calls_append [simp]: "close_calls (xs @ ys) = close_calls xs @ close_calls ys"
  by (simp add: close_calls_def)

lemma finally_block_closed:
  assumes "set (read_calls (calls w)) = {cur}" and "close_calls (calls w) = []"
      and "finally_block env cur completion g w = (x, g', w')"
  shows "closed_when_done g' w'"
  using assms
  by (auto simp: finally_block_def call_def closed_when_done_def Let_def split: sum.splits)

lemma loop_closed:
  assumes "set (read_calls (calls w)) \<subseteq> {cur}" and "close_calls (calls w) = []"
      and "loop env cur g w = (x, g', w')"
  shows "closed_when_done g' w'"
proof -
  let ?w1 = "w\<lparr>calls := calls w @ [CursorRead cur (chunkSize g)]\<rparr>"
  from assms(1) have r: "set (read_calls (calls ?w1)) = {cur}" by auto
  from assms(2) have c: "close_calls (calls ?w1) = []" by simp
  show ?thesis
  proof (cases "cursor_read env (calls w @ [CursorRead cur (chunkSize g)])")
    case (Inl e)
    with assms(3) have "finally_block env cur (Inl e) g ?w1 = (x, g', w')"
      by (simp add: loop_def call_def Let_def)
    from finally_block_closed [OF r c this] show ?thesis .
  next
    case (Inr rs)
    show ?thesis
    proof (cases "length rs = 0")
      case True
      with assms(3) Inr have "finally_block env cur (Inr Done) g ?w1 = (x, g', w')"
        by (simp add: loop_def call_def Let_def)
      from finally_block_closed [OF r c this] show ?thesis .
    next
      case False
      with assms(3) Inr have "g' = g\<lparr>state := SuspendedYield cur\<rparr>" and "w' = ?w1"
        by (simp_all add: loop_def call_def Let_def)
      with r c show ?thesis by (simp add: closed_when_done_def)
    qed
  qed
qed

lemma gen_next_closed:
  assumes "closed_when_done g w" and "gen_next env g w = (x, g', w')"
  shows "closed_when_done g' w'"
proof (cases "state g")
  case SuspendedStart
  with assms(1) have n: "read_calls (calls w) = []" "close_calls (calls w) = []"
    by (simp_all add: closed_when_done_def)
  have fin: "state g' = Completed \<Longrightarrow> read_calls (calls w') = []
      \<Longrightarrow> close_calls (calls w') = [] \<Longrightarrow> closed_when_done g' w'"
    by (simp add: closed_when_done_def)
  show ?thesis
  proof (cases "priv_options_cursor (this g)")
    case None
    with assms(2) SuspendedStart n show ?thesis
      by (intro fin) (auto simp: gen_next_def)
  next
    case (Some ctor)
    show ?thesis
    proof (cases "\<not> Number_isInteger (chunkSize g) \<or> le_zero (chunkSize g)")
      case True
      with assms(2) SuspendedStart Some n show ?thesis
        by (intro fin) (auto simp: gen_next_def)
    next
      case False
      let ?c1 = "NewCursor ctor (sql (compiledQuery g)) (parameters (compiledQuery g))"
      let ?w1 = "w\<lparr>calls := calls w @ [?c1]\<rparr>"
      show ?thesis
      proof (cases "new_cursor env (calls w @ [?c1])")
        case (Inl e)
        with assms(2) SuspendedStart Some False n show ?thesis
          by (intro fin) (auto simp: gen_next_def call_def Let_def)
      next
        case c: (Inr c)
        let ?c2 = "ClientQueryCursor (priv_client (this g)) c"
        let ?w2 = "?w1\<lparr>calls := calls ?w1 @ [?c2]\<rparr>"
        show ?thesis
        proof (cases "client_query_cursor env (calls ?w1 @ [?c2])")
          case (Inl e)
          with assms(2) SuspendedStart Some False n c show ?thesis
            by (intro fin) (auto simp: gen_next_def call_def Let_def)
        next
          case (Inr cur)
          with assms(2) SuspendedStart Some False c
          have l: "loop env cur g ?w2 = (x, g', w')"
            by (simp add: gen_next_def call_def Let_def)
          from n have "set (read_calls (calls ?w2)) \<subseteq> {cur}" and "close_calls (calls ?w2) = []"
            by simp_all
          from loop_closed [OF this l] show ?thesis .
        qed
      qed
    qed
  qed
next
  case (SuspendedYield cur)
  with assms have "loop env cur g w = (x, g', w')"
    and "set (read_calls (calls w)) \<subseteq> {cur}" and "close_calls (calls w) = []"
    by (simp_all add: gen_next_def closed_when_done_def)
  from loop_closed [OF this(2,3,1)] show ?thesis .
next
  case Completed
  with assms(2) have "g' = g" and "w' = w"
    by (simp_all add: gen_next_def)
  with assms(1) show ?thesis by simp
qed

lemma gen_return_closed:
  assumes "closed_when_done g w" and "gen_return env g w = (x, g', w')"
  shows "closed_when_done g' w'"
proof (cases "state g")
  case SuspendedStart
  with assms show ?thesis by (auto simp: gen_return_def closed_when_done_def)
next
  case (SuspendedYield cur)
  with assms have "finally_block env cur (Inr Done) g w = (x, g', w')"
    and "set (read_calls (calls w)) = {cur}" and "close_calls (calls w) = []"
    by (simp_all add: gen_return_def closed_when_done_def)
  from finally_block_closed [OF this(2,3,1)] show ?thesis .
next
  case Completed
  with assms(2) have "g' = g" and "w' = w"
    by (simp_all add: gen_return_def)
  with assms(1) show ?thesis by simp
qed

lemma gen_throw_closed:
  assumes "closed_when_done g w" and "gen_throw env e g w = (x, g', w')"
  shows "closed_when_done g' w'"
proof (cases "state g")
  case SuspendedStart
  with assms show ?thesis by (auto simp: gen_throw_def closed_when_done_def)
next
  case (SuspendedYield cur)
  with assms have "finally_block env cur (Inl e) g w = (x, g', w')"
    and "set (read_calls (calls w)) = {cur}" and "close_calls (calls w) = []"
    by (simp_all add: gen_throw_def closed_when_done_def)
  from finally_block_closed [OF this(2,3,1)] show ?thesis .
next
  case Completed
  with assms(2) have "g' = g" and "w' = w"
    by (simp_all add: gen_throw_def)
  with assms(1) show ?thesis by simp
qed

lemma consume_closed:
  "closed_when_done g w \<Longrightarrow> consume env rs g w = (xs, g', w') \<Longrightarrow> closed_when_done g' w'"
proof (induction rs arbitrary: g w xs)
  case Nil
  then show ?case by simp
next
  case (Cons r rs)
  from Cons.prems(2) obtain x g1 w1 xs1 where
    s: "resume env r g w = (x, g1, w1)" and c: "consume env rs g1 w1 = (xs1, g', w')"
    by (auto split: prod.splits)
  from s Cons.prems(1) have "closed_when_done g1 w1"
    by (cases r) (auto simp: resume_def dest: gen_next_closed gen_return_closed gen_throw_closed)
  from Cons.IH [OF this c] show ?case .
qed


lemma finally_block_exit:
  "finally_block env cur completion g w = (x, g', w')
   \<Longrightarrow> state g' = Completed \<and> calls w' = calls w @ [CursorClose cur]
       \<and> (x = completion \<or> (\<exists>e. x = Inl e))"
  by (auto simp: finally_block_def call_def Let_def split: sum.splits)

lemma loop_exits:
  "case loop env cur g w of
     (x, g', w') \<Rightarrow>
       (case cursor_read env (calls w @ [CursorRead cur (chunkSize g)]) of
          Inl err \<Rightarrow>
            state g' = Completed
            \<and> calls w' = calls w @ [CursorRead cur (chunkSize g), CursorClose cur]
            \<and> (\<exists>e. x = Inl e)
        | Inr rs \<Rightarrow>
            if rs = []
            then state g' = Completed
                 \<and> calls w' = calls w @ [CursorRead cur (chunkSize g), CursorClose cur]
                 \<and> (x = Inr Done \<or> (\<exists>e. x = Inl e))
            else state g' = SuspendedYield cur
                 \<and> calls w' = calls w @ [CursorRead cur (chunkSize g)]
                 \<and> x = Inr (Value (batch rs)))"
  by (auto simp: loop_def finally_block_def call_def Let_def batch_def split: sum.splits)

lemma resume_ended:
  "resume env r g w = (x, g', w')
   \<Longrightarrow> (state g' = Completed)
        = (state g = Completed \<or> (case x of Inr (Value b) \<Rightarrow> False | _ \<Rightarrow> True))"
  by (cases r; cases "state g")
     (auto simp: resume_def gen_next_def gen_return_def gen_throw_def loop_def finally_block_def
        call_def Let_def split: sum.splits option.splits if_splits)

lemma consume_ended:
  "consume env rs g w = (xs, g', w')
   \<Longrightarrow> (state g' = Completed) = (state g = Completed \<or> ended xs)"
proof (induction rs arbitrary: g w xs)
  case Nil
  then show ?case by (simp add: ended_def)
next
  case (Cons r rs)
  from Cons.prems obtain x g1 w1 xs1 where
    s: "resume env r g w = (x, g1, w1)" and c: "consume env rs g1 w1 = (xs1, g', w')"
    and xs: "xs = x # xs1"
    by (auto split: prod.splits)
  from resume_ended [OF s] Cons.IH [OF c] xs show ?case
    by (auto simp: ended_def)
qed

lemma closed_when_done_yield:
  "closed_when_done g w \<Longrightarrow> state g = SuspendedYield cur \<Longrightarrow> set (read_calls (calls w)) = {cur}"
  by (simp add: closed_when_done_def)

lemmas stream_defs = consume.simps resume_def gen_next_def gen_return_def gen_throw_def loop_def
  finally_block_def call_def streamQuery_def Number_isInteger_def le_zero_def requested_def
  Let_def

lemma requested_read [simp]: "requested (CursorRead cur (Finite (of_nat k))) = k"
  by (simp add: requested_def)

lemma serving_read:
  "cursor_read (serving xs) (cs @ [CursorRead cur (Finite (of_nat k))])
     = Inr (take k (drop (sum_list (map requested cs)) xs))"
  by (simp add: serving_def)

lemma serving_close: "cursor_close (serving xs) cs = Inr ()"
  by (simp add: serving_def obliging_def)

lemma loop_serving:
  assumes "0 < k" and "chunkSize g = Finite (of_nat k)"
      and "sum_list (map requested (calls w)) = m"
  shows "loop (serving xs) cur g w =
     (if drop m xs = []
      then (Inr Done, g\<lparr>state := Completed\<rparr>,
            w\<lparr>calls := calls w @ [CursorRead cur (Finite (of_nat k)), CursorClose cur]\<rparr>)
      else (Inr (Value (batch (take k (drop m xs)))), g\<lparr>state := SuspendedYield cur\<rparr>,
            w\<lparr>calls := calls w @ [CursorRead cur (Finite (of_nat k))]\<rparr>))"
  using assms
  by (auto simp: loop_def finally_block_def call_def Let_def serving_read serving_close batch_def
      min_def)

lemma exhaust_serving:
  assumes "0 < k"
  shows "chunkSize g = Finite (of_nat k) \<Longrightarrow> state g = SuspendedYield cur
     \<Longrightarrow> sum_list (map requested (calls w)) = m \<Longrightarrow> length (drop m xs) < fuel
     \<Longrightarrow> exhaust (serving xs) fuel g w =
          Some (Inr (map batch (batches_of k (drop m xs))), g\<lparr>state := Completed\<rparr>,
                w\<lparr>calls := calls w
                     @ replicate (Suc (length (batches_of k (drop m xs))))
                         (CursorRead cur (Finite (of_nat k)))
                     @ [CursorClose cur]\<rparr>)"
proof (induction fuel arbitrary: g w m)
  case 0
  then show ?case by simp
next
  case (Suc fuel)
  have n: "gen_next (serving xs) g w = loop (serving xs) cur g w"
    using Suc.prems(2) by (simp add: gen_next_def)
  note l = loop_serving [OF assms Suc.prems(1,3), of xs cur]
  show ?case
  proof (cases "drop m xs = []")
    case True
    with n l show ?thesis by (simp add: batches_of.simps)
  next
    case False
    let ?g = "g\<lparr>state := SuspendedYield cur\<rparr>"
    let ?w = "w\<lparr>calls := calls w @ [CursorRead cur (Finite (of_nat k))]\<rparr>"
    from False n l have s: "gen_next (serving xs) g w
        = (Inr (Value (batch (take k (drop m xs)))), ?g, ?w)"
      by simp
    have 1: "chunkSize ?g = Finite (of_nat k)" using Suc.prems(1) by simp
    have 2: "state ?g = SuspendedYield cur" by simp
    have 3: "sum_list (map requested (calls ?w)) = m + k" using Suc.prems(3) by simp
    from False assms Suc.prems(4) have 4: "length (drop (m + k) xs) < fuel"
      by simp
    note ih = Suc.IH [OF 1 2 3 4]
    have d: "drop (m + k) xs = drop k (drop m xs)"
      by (simp add: add.commute)
    from False assms have b: "batches_of k (drop m xs)
        = take k (drop m xs) # batches_of k (drop (m + k) xs)"
      by (subst batches_of.simps) (simp add: d)
    show ?thesis
      unfolding exhaust.simps s b using ih
      by (simp add: replicate_append_same)
  qed
qed


lemma concat_batches_of: "0 < k \<Longrightarrow> concat (batches_of k xs) = xs"
proof (induction k xs rule: batches_of.induct)
  case (1 k xs)
  show ?case
  proof (cases "xs = []")
    case True
    then show ?thesis by (simp add: batches_of.simps)
  next
    case False
    with 1 have "concat (batches_of k (drop k xs)) = drop k xs" by simp
    with False 1 show ?thesis
      by (subst batches_of.simps) simp
  qed
qed

lemma batches_of_sizes: "b \<in> set (batches_of k xs) \<Longrightarrow> b \<noteq> [] \<and> length b \<le> k"
proof (induction k xs rule: batches_of.induct)
  case (1 k xs)
  show ?case
  proof (cases "k = 0 \<or> xs = []")
    case True
    with 1(2) show ?thesis by (simp add: batches_of.simps)
  next
    case False
    with 1(2) have "b = take k xs \<or> b \<in> set (batches_of k (drop k xs))"
      by (subst (asm) batches_of.simps) auto
    with False 1(1) show ?thesis by auto
  qed
qed

section \<open>The driver's lifecycle\<close>

text \<open>
  Single-client mode, for calls awaited one after the other: once a call of
  \<open>acquireConnection()\<close> has succeeded with the wrapper \<open>c\<close>, every call that succeeds gives
  the same wrapper \<open>c\<close>, and a further call returns \<open>c\<close> with no native call and no change
  of the driver. The guard is on \<open>#singleConnection\<close>, which is set only after \<open>connect()\<close> has
  succeeded: the lazy client factory is invoked once by each call that fails and once by
  the first call that succeeds, one time more than the number of failed calls.
\<close>

theorem acquireConnection_single_client:
  assumes "\<not> isPoolConfig config"
      and "Acquired c \<in> set (outcomes env ops (new_PostgresDriver config) start)"
      and "Acquired c' \<in> set (outcomes env ops (new_PostgresDriver config) start)"
  shows "c' = c
     \<and> acquireConnection env' (driver_after env ops (new_PostgresDriver config) start) w'
         = (Inr c, driver_after env ops (new_PostgresDriver config) start, w')
     \<and> count_list (calls (world_after env ops (new_PostgresDriver config) start)) ConfigClient
         = (if client config = Some Function
            then Suc (failed_acquisitions ops (outcomes env ops (new_PostgresDriver config) start))
            else 0)"
proof -
  let ?d = "driver_after env ops (new_PostgresDriver config) start"
  have c: "priv_singleConnection ?d = Some c" and c': "priv_singleConnection ?d = Some c'"
    and cfg: "priv_config ?d = config"
    using run_new_single [OF assms(1,2)] run_new_single [OF assms(1,3)] by simp_all
  from c c' have "c' = c" by simp
  moreover from c cfg assms(1) have "acquireConnection env' ?d w' = (Inr c, ?d, w')"
    by (simp add: acquireConnection_def)
  ultimately show ?thesis
    using run_new_single(4) [OF assms(1,2)] by simp
qed

theorem acquireConnection_single_client_witness:
  "\<not> isPoolConfig client_config
   \<and> Acquired \<lparr>ref = 0, priv_client = 13, priv_options_cursor = Some 0\<rparr>
       \<in> set (outcomes (flaky :: nat natives)
                [AcquireConnection, AcquireConnection, AcquireConnection]
                (new_PostgresDriver client_config) start)
   \<and> count_list (calls (world_after (flaky :: nat natives)
                [AcquireConnection, AcquireConnection, AcquireConnection]
                (new_PostgresDriver client_config) start)) ConfigClient = 2"
  using acquireConnection_single_client
    [of client_config "\<lparr>ref = 0, priv_client = 13, priv_options_cursor = Some 0\<rparr>"
        "flaky :: nat natives" "[AcquireConnection, AcquireConnection, AcquireConnection]"
        "\<lparr>ref = 0, priv_client = 13, priv_options_cursor = Some 0\<rparr>"]
  by (simp add: outcomes_def world_after_def flaky_def obliging_def client_config_def
      new_PostgresDriver_def start_def isPoolConfig_def driver_defs)

text \<open>
  C4: the client factory is to be invoked at most once; the configuration documents that
  the function "is called once when the first query is executed". The driver invokes it
  again: when the first \<open>connect()\<close> is rejected, the second \<open>acquireConnection()\<close>
  succeeds and has invoked the client factory a second time, for a second client.
\<close>

theorem acquireConnection_factory_again_after_failure:
  "outcomes (flaky :: nat natives) [AcquireConnection, AcquireConnection]
       (new_PostgresDriver client_config) start
     = [Failed (Thrown 0), Acquired \<lparr>ref = 0, priv_client = 13, priv_options_cursor = Some 0\<rparr>]
   \<and> calls (world_after (flaky :: nat natives) [AcquireConnection, AcquireConnection]
        (new_PostgresDriver client_config) start)
     = [ConfigClient, ClientConnect 11, ConfigClient, ClientConnect 13]
   \<and> \<not> count_list (calls (world_after (flaky :: nat natives) [AcquireConnection, AcquireConnection]
        (new_PostgresDriver client_config) start)) ConfigClient \<le> 1"
  by (simp add: outcomes_def world_after_def flaky_def obliging_def client_config_def
      new_PostgresDriver_def start_def isPoolConfig_def driver_defs)

text \<open>
  C10: in single-client mode, after \<open>acquireConnection()\<close> has succeeded at least once,
  every \<open>destroy()\<close> calls \<open>end()\<close> on the single client and leaves the driver as it was (the
  client reference is never cleared), so a second \<open>destroy()\<close> calls \<open>end()\<close> a second time.
\<close>

theorem destroy_single_client_ends_again:
  assumes "\<not> isPoolConfig config"
      and "Acquired c \<in> set (outcomes env ops (new_PostgresDriver config) start)"
  shows "let d = driver_after env ops (new_PostgresDriver config) start;
             w = world_after env ops (new_PostgresDriver config) start;
             (r1, d1, w1) = destroy env d w;
             (r2, d2, w2) = destroy env d1 w1
         in priv_singleClient d = Some (priv_client c) \<and> d1 = d \<and> d2 = d
            \<and> calls w1 = calls w @ [ClientEnd (priv_client c)]
            \<and> calls w2 = calls w @ [ClientEnd (priv_client c), ClientEnd (priv_client c)]"
  using run_new_single(2) [OF assms]
  by (simp add: destroy_def call_def Let_def split: prod.splits)

theorem destroy_single_client_ends_again_witness:
  "\<not> isPoolConfig client_config
   \<and> Acquired \<lparr>ref = 0, priv_client = 2, priv_options_cursor = Some 0\<rparr>
       \<in> set (outcomes (obliging :: nat natives) [AcquireConnection]
                (new_PostgresDriver client_config) start)
   \<and> calls (world_after (obliging :: nat natives) [AcquireConnection, Destroy, Destroy]
               (new_PostgresDriver client_config) start)
       = [ConfigClient, ClientConnect 2, ClientEnd 2, ClientEnd 2]"
  using destroy_single_client_ends_again
    [of client_config "\<lparr>ref = 0, priv_client = 2, priv_options_cursor = Some 0\<rparr>"
        "obliging :: nat natives" "[AcquireConnection]"]
  by (simp add: outcomes_def world_after_def obliging_def client_config_def
      new_PostgresDriver_def start_def isPoolConfig_def driver_defs)

text \<open>
  C7: in pool mode, with a pool handle resolved, \<open>destroy()\<close> clears the driver's reference
  to the pool before it closes it (the reference is cleared whether or not \<open>end()\<close>
  succeeds); \<open>destroy()\<close> called twice calls \<open>end()\<close> on the pool exactly once, and the
  second call returns without a native call and without a change of the driver.
\<close>

theorem destroy_twice_pool:
  assumes "isPoolConfig config"
      and "priv_pool (driver_after env ops (new_PostgresDriver config) start) = Some p"
  shows "let d = driver_after env ops (new_PostgresDriver config) start;
             w = world_after env ops (new_PostgresDriver config) start;
             (r1, d1, w1) = destroy env d w;
             (r2, d2, w2) = destroy env d1 w1
         in calls w1 = calls w @ [PoolEnd p] \<and> priv_pool d1 = None
            \<and> r2 = Inr () \<and> d2 = d1 \<and> w2 = w1"
proof -
  obtain rs d w where r: "run env ops (new_PostgresDriver config) start = (rs, d, w)"
    by (metis prod_cases3)
  have "priv_singleClient d = None"
    using run_pool_single [OF r] assms(1) by (simp add: new_PostgresDriver_def)
  moreover have "priv_pool d = Some p"
    using assms(2) r by (simp add: driver_after_def)
  ultimately show ?thesis
    using r by (simp add: driver_after_def world_after_def destroy_def call_def Let_def split: prod.splits)
qed

theorem destroy_twice_pool_witness:
  "isPoolConfig pool_config
   \<and> priv_pool (driver_after (obliging :: nat natives) [Init, AcquireConnection]
        (new_PostgresDriver pool_config) start) = Some 1
   \<and> calls (world_after (obliging :: nat natives) [Init, AcquireConnection, Destroy, Destroy]
        (new_PostgresDriver pool_config) start)
      = [ConfigPool, PoolConnect 1,
         OnCreateConnection \<lparr>ref = 0, priv_client = 3, priv_options_cursor = Some 0\<rparr>, PoolEnd 1]"
  using destroy_twice_pool [of pool_config "obliging :: nat natives" "[Init, AcquireConnection]" 1]
  by (simp add: driver_after_def world_after_def obliging_def pool_config_def
      new_PostgresDriver_def start_def isPoolConfig_def driver_defs)





text \<open>
  C3: in pool mode, after any sequence of calls on the driver, for every behaviour of the
  pool and of the hook:
  \<^item> \<open>onCreateConnection\<close> has been called at most once for each native client handle \<open>h\<close>,
    and then with the wrapper registered for \<open>h\<close>;
  \<^item> a wrapper that a call returned is the one registered for its client, so two calls that
    return wrappers of the same native client return the same wrapper;
  \<^item> the wrapper a call returns wraps exactly the handle that \<open>pool.connect()\<close> resolved to
    in that call;
  \<^item> a call of \<open>acquireConnection()\<close> whose \<open>pool.connect()\<close> resolves to a handle that has a
    wrapper returns that wrapper, calls nothing but \<open>connect()\<close> (the hook is not called for a
    reused handle) and leaves the driver as it was;
  \<^item> a call whose \<open>pool.connect()\<close> resolves to a handle without a wrapper registers a fresh
    wrapper for it, and calls the hook, when one is configured, exactly once, with that
    wrapper; it returns the wrapper unless the hook fails.
  The WeakMap is a map here: an entry can only disappear once its key is unreachable, and
  then the pool cannot hand that client out again.
\<close>

theorem acquireConnection_pool:
  assumes "isPoolConfig config"
  shows "let rs = outcomes env ops (new_PostgresDriver config) start;
             d = driver_after env ops (new_PostgresDriver config) start;
             w = world_after env ops (new_PostgresDriver config) start;
             fresh = \<lparr>ref = allocated w, priv_client = h, priv_options_cursor = cursor config\<rparr>
         in length (hook_calls h (calls w)) \<le> 1
          \<and> (hook_calls h (calls w) = []
               \<or> (\<exists>c. priv_connections d h = Some c
                      \<and> hook_calls h (calls w) = [OnCreateConnection c]))
          \<and> (Acquired c1 \<in> set rs \<longrightarrow> priv_connections d (priv_client c1) = Some c1)
          \<and> (Acquired c1 \<in> set rs \<and> Acquired c2 \<in> set rs \<and> priv_client c1 = priv_client c2
               \<longrightarrow> c1 = c2)
          \<and> (acquireConnection env d w = (Inr c, d', w')
               \<longrightarrow> (\<exists>p. priv_pool d = Some p
                      \<and> pool_connect env (calls w @ [PoolConnect p]) = Inr (priv_client c)))
          \<and> (priv_pool d = Some p \<and> pool_connect env (calls w @ [PoolConnect p]) = Inr h
               \<longrightarrow> (case priv_connections d h of
                      Some reused \<Rightarrow>
                        acquireConnection env d w
                          = (Inr reused, d, w\<lparr>calls := calls w @ [PoolConnect p]\<rparr>)
                    | None \<Rightarrow>
                        (case acquireConnection env d w of
                           (x, d1, w1) \<Rightarrow>
                             priv_connections d1 = (priv_connections d)(h \<mapsto> fresh)
                             \<and> calls w1
                                 = calls w @ PoolConnect p
                                     # (case onCreateConnection config of
                                          None \<Rightarrow> [] | Some u \<Rightarrow> [OnCreateConnection fresh])
                             \<and> (x = Inr fresh
                                  \<or> (\<exists>e. x = Inl e \<and> onCreateConnection config \<noteq> None
                                         \<and> on_create_connection env
                                               (calls w @ [PoolConnect p, OnCreateConnection fresh])
                                             = Inl e)))))"
proof -
  obtain rs d w where r: "run env ops (new_PostgresDriver config) start = (rs, d, w)"
    by (metis prod_cases3)
  have p: "isPoolConfig (priv_config (new_PostgresDriver config))"
    using assms by (simp add: new_PostgresDriver_def)
  have i: "wraps (new_PostgresDriver config)" "hooked (new_PostgresDriver config) start h"
    by (simp_all add: wraps_def hooked_def new_PostgresDriver_def start_def)
  have inv: "wraps d" "hooked d w h"
    "\<forall>c. Acquired c \<in> set rs \<longrightarrow> priv_connections d (priv_client c) = Some c"
    using run_pool_inv [OF p i r] by blast+
  from inv(2) have 1: "length (hook_calls h (calls w)) \<le> 1"
    by (auto simp: hooked_def split: option.splits)
  from inv(2) have 2: "hook_calls h (calls w) = []
               \<or> (\<exists>c. priv_connections d h = Some c
                      \<and> hook_calls h (calls w) = [OnCreateConnection c])"
    by (auto simp: hooked_def split: option.splits)
  from inv(3) have 3: "Acquired c1 \<in> set rs \<longrightarrow> priv_connections d (priv_client c1) = Some c1"
    by blast
  from inv(3) have 4: "Acquired c1 \<in> set rs \<and> Acquired c2 \<in> set rs
       \<and> priv_client c1 = priv_client c2 \<longrightarrow> c1 = c2"
    by (metis option.inject)
  from r have cfg: "priv_config d = config"
    using run_config [OF r] by (simp add: new_PostgresDriver_def)
  with assms have pd: "isPoolConfig (priv_config d)" by simp
  from acquire_pool_wraps(4) [OF pd inv(1)]
  have 5: "acquireConnection env d w = (Inr c, d', w')
          \<longrightarrow> (\<exists>p. priv_pool d = Some p
                 \<and> pool_connect env (calls w @ [PoolConnect p]) = Inr (priv_client c))"
    by blast
  have 6: "priv_pool d = Some p \<and> pool_connect env (calls w @ [PoolConnect p]) = Inr h
               \<longrightarrow> (case priv_connections d h of
                      Some reused \<Rightarrow>
                        acquireConnection env d w
                          = (Inr reused, d, w\<lparr>calls := calls w @ [PoolConnect p]\<rparr>)
                    | None \<Rightarrow>
                        (case acquireConnection env d w of
                           (x, d1, w1) \<Rightarrow>
                             priv_connections d1
                               = (priv_connections d)(h \<mapsto>
                                   \<lparr>ref = allocated w, priv_client = h,
                                     priv_options_cursor = cursor config\<rparr>)
                             \<and> calls w1
                                 = calls w @ PoolConnect p
                                     # (case onCreateConnection config of
                                          None \<Rightarrow> []
                                        | Some u \<Rightarrow>
                                            [OnCreateConnection
                                               \<lparr>ref = allocated w, priv_client = h,
                                                 priv_options_cursor = cursor config\<rparr>])
                             \<and> (x = Inr \<lparr>ref = allocated w, priv_client = h,
                                          priv_options_cursor = cursor config\<rparr>
                                  \<or> (\<exists>e. x = Inl e \<and> onCreateConnection config \<noteq> None
                                         \<and> on_create_connection env
                                               (calls w @ [PoolConnect p,
                                                  OnCreateConnection
                                                    \<lparr>ref = allocated w, priv_client = h,
                                                      priv_options_cursor = cursor config\<rparr>])
                                             = Inl e))))"
    using pd cfg
    by (auto simp: acquireConnection_def call_def new_PostgresConnection_def Let_def
        split: option.splits sum.splits)
  from 1 2 3 4 5 6 r show ?thesis
    by (simp add: outcomes_def driver_after_def world_after_def Let_def)
qed

theorem acquireConnection_pool_witness:
  "isPoolConfig pool_config
   \<and> outcomes (obliging :: nat natives)
         [Init, AcquireConnection,
          ReleaseConnection \<lparr>ref = 0, priv_client = 3, priv_options_cursor = Some 0\<rparr>,
          AcquireConnection]
         (new_PostgresDriver pool_config) start
       = [Returned, Acquired \<lparr>ref = 0, priv_client = 3, priv_options_cursor = Some 0\<rparr>,
          Returned, Acquired \<lparr>ref = 0, priv_client = 3, priv_options_cursor = Some 0\<rparr>]
   \<and> calls (world_after (obliging :: nat natives)
         [Init, AcquireConnection,
          ReleaseConnection \<lparr>ref = 0, priv_client = 3, priv_options_cursor = Some 0\<rparr>,
          AcquireConnection]
         (new_PostgresDriver pool_config) start)
       = [ConfigPool, PoolConnect 1,
          OnCreateConnection \<lparr>ref = 0, priv_client = 3, priv_options_cursor = Some 0\<rparr>,
          ClientRelease 3, PoolConnect 1]
   \<and> priv_pool (driver_after (obliging :: nat natives)
         [Init, AcquireConnection,
          ReleaseConnection \<lparr>ref = 0, priv_client = 3, priv_options_cursor = Some 0\<rparr>,
          AcquireConnection]
         (new_PostgresDriver pool_config) start) = Some 1
   \<and> priv_connections (driver_after (obliging :: nat natives)
         [Init, AcquireConnection,
          ReleaseConnection \<lparr>ref = 0, priv_client = 3, priv_options_cursor = Some 0\<rparr>,
          AcquireConnection]
         (new_PostgresDriver pool_config) start) 3
       = Some \<lparr>ref = 0, priv_client = 3, priv_options_cursor = Some 0\<rparr>
   \<and> pool_connect (obliging :: nat natives)
         [ConfigPool, PoolConnect 1,
          OnCreateConnection \<lparr>ref = 0, priv_client = 3, priv_options_cursor = Some 0\<rparr>,
          ClientRelease 3, PoolConnect 1, PoolConnect 1] = Inr 3
   \<and> acquireConnection (obliging :: nat natives)
        (driver_after (obliging :: nat natives)
           [Init, AcquireConnection,
            ReleaseConnection \<lparr>ref = 0, priv_client = 3, priv_options_cursor = Some 0\<rparr>,
            AcquireConnection]
           (new_PostgresDriver pool_config) start)
        (world_after (obliging :: nat natives)
           [Init, AcquireConnection,
            ReleaseConnection \<lparr>ref = 0, priv_client = 3, priv_options_cursor = Some 0\<rparr>,
            AcquireConnection]
           (new_PostgresDriver pool_config) start)
       = (Inr \<lparr>ref = 0, priv_client = 3, priv_options_cursor = Some 0\<rparr>,
          driver_after (obliging :: nat natives)
           [Init, AcquireConnection,
            ReleaseConnection \<lparr>ref = 0, priv_client = 3, priv_options_cursor = Some 0\<rparr>,
            AcquireConnection]
           (new_PostgresDriver pool_config) start,
          \<lparr>calls = [ConfigPool, PoolConnect 1,
                    OnCreateConnection \<lparr>ref = 0, priv_client = 3, priv_options_cursor = Some 0\<rparr>,
                    ClientRelease 3, PoolConnect 1, PoolConnect 1],
            allocated = 1\<rparr>)
   \<and> priv_connections (driver_after (obliging :: nat natives) [Init]
         (new_PostgresDriver pool_config) start) 3 = None
   \<and> calls (world_after (obliging :: nat natives) [Init, AcquireConnection]
         (new_PostgresDriver pool_config) start)
       = [ConfigPool, PoolConnect 1,
          OnCreateConnection \<lparr>ref = 0, priv_client = 3, priv_options_cursor = Some 0\<rparr>]"
  using acquireConnection_pool
    [of pool_config "obliging :: nat natives"
        "[Init, AcquireConnection,
          ReleaseConnection \<lparr>ref = 0, priv_client = 3, priv_options_cursor = Some 0\<rparr>,
          AcquireConnection]"
        3
        "\<lparr>ref = 0, priv_client = 3, priv_options_cursor = Some 0\<rparr>"
        "\<lparr>ref = 0, priv_client = 3, priv_options_cursor = Some 0\<rparr>"
        "\<lparr>ref = 0, priv_client = 3, priv_options_cursor = Some 0\<rparr>"]
    acquireConnection_pool [of pool_config "obliging :: nat natives" "[Init]" 3]
  by (simp add: outcomes_def driver_after_def world_after_def obliging_def pool_config_def
      new_PostgresDriver_def start_def isPoolConfig_def driver_defs releaseConnection_def
      PRIVATE_RELEASE_METHOD_def isPoolClient_def await_void_def)

section \<open>Query execution and streaming\<close>

text \<open>
  C1: whatever the native calls answer and whatever the consumer requests (\<open>next()\<close>,
  \<open>return()\<close>, \<open>throw(e)\<close>, in any order):
  \<^item> the generator is completed exactly when the consumer has been given a result that is
    not a batch (\<open>done\<close>, or a rejection); once it is completed and has entered its \<open>try\<close>
    block (it has called \<open>read\<close>, the first statement of the block), \<open>close\<close> has been called
    exactly once, on the cursor that was read; before that, and when it completes without
    having read, \<open>close\<close> has not been called; while it is suspended at the \<open>yield\<close> it holds
    the cursor that was read;
  \<^item> every way out of the \<open>try\<close> block calls \<open>close\<close> and completes the generator: a read of
    zero rows and a rejected read (one \<open>read\<close>, then \<open>close\<close>), and \<open>return()\<close> and
    \<open>throw(e)\<close> of the consumer at the \<open>yield\<close> (\<open>close\<close> alone); a read that gives rows
    yields them and calls nothing else;
  \<^item> \<open>next()\<close> runs that block: at the \<open>yield\<close>, and at the start once both checks have
    passed and the cursor has been created;
  \<^item> a completed generator makes no native call, whatever is requested.
\<close>

theorem streamQuery_closes_cursor:
  "(case consume env rs (streamQuery conn q n) start of
      (xs, g1, w1) \<Rightarrow>
        (state g1 = Completed \<longleftrightarrow> ended xs)
        \<and> (if state g1 = Completed \<and> read_calls (calls w1) \<noteq> []
            then \<exists>cur. set (read_calls (calls w1)) = {cur} \<and> close_calls (calls w1) = [cur]
            else close_calls (calls w1) = [])
        \<and> (case state g1 of
              SuspendedYield cur \<Rightarrow> set (read_calls (calls w1)) = {cur} | _ \<Rightarrow> True))
   \<and> (case loop env cur g w of
         (x, g', w') \<Rightarrow>
           (case cursor_read env (calls w @ [CursorRead cur (chunkSize g)]) of
              Inl err \<Rightarrow>
                state g' = Completed
                \<and> calls w' = calls w @ [CursorRead cur (chunkSize g), CursorClose cur]
                \<and> (\<exists>e. x = Inl e)
            | Inr got \<Rightarrow>
                if got = []
                then state g' = Completed
                     \<and> calls w' = calls w @ [CursorRead cur (chunkSize g), CursorClose cur]
                     \<and> (x = Inr Done \<or> (\<exists>e. x = Inl e))
                else state g' = SuspendedYield cur
                     \<and> calls w' = calls w @ [CursorRead cur (chunkSize g)]
                     \<and> x = Inr (Value (batch got))))
   \<and> (state g = SuspendedYield cur \<longrightarrow>
         gen_next env g w = loop env cur g w
         \<and> (case gen_return env g w of
               (x, g', w') \<Rightarrow>
                 state g' = Completed \<and> calls w' = calls w @ [CursorClose cur]
                 \<and> (x = Inr Done \<or> (\<exists>e'. x = Inl e')))
         \<and> (case gen_throw env e g w of
               (x, g', w') \<Rightarrow>
                 state g' = Completed \<and> calls w' = calls w @ [CursorClose cur]
                 \<and> (\<exists>e'. x = Inl e')))
   \<and> (state g = SuspendedStart \<and> priv_options_cursor (this g) = Some ctor
        \<and> Number_isInteger (chunkSize g) \<and> \<not> le_zero (chunkSize g)
        \<and> new_cursor env
              (calls w @ [NewCursor ctor (sql (compiledQuery g)) (parameters (compiledQuery g))])
            = Inr c
        \<and> client_query_cursor env
              (calls w @ [NewCursor ctor (sql (compiledQuery g)) (parameters (compiledQuery g)),
                          ClientQueryCursor (priv_client (this g)) c])
            = Inr cur \<longrightarrow>
         gen_next env g w
           = loop env cur g
               (w\<lparr>calls := calls w
                    @ [NewCursor ctor (sql (compiledQuery g)) (parameters (compiledQuery g)),
                       ClientQueryCursor (priv_client (this g)) c]\<rparr>))
   \<and> (state g = Completed \<longrightarrow>
         resume env r g w = (case r of Throw e' \<Rightarrow> Inl e' | _ \<Rightarrow> Inr Done, g, w))"
proof -
  obtain xs g1 w1 where c: "consume env rs (streamQuery conn q n) start = (xs, g1, w1)"
    by (metis prod_cases3)
  have i: "closed_when_done (streamQuery conn q n) start"
    by (simp add: closed_when_done_def streamQuery_def start_def)
  from consume_closed [OF i c] have k: "closed_when_done g1 w1" .
  then have 1: "if state g1 = Completed \<and> read_calls (calls w1) \<noteq> []
       then \<exists>cur. set (read_calls (calls w1)) = {cur} \<and> close_calls (calls w1) = [cur]
       else close_calls (calls w1) = []"
    by (cases "state g1") (simp_all add: closed_when_done_def split: if_splits)
  from k have 2: "case state g1 of
      SuspendedYield cur \<Rightarrow> set (read_calls (calls w1)) = {cur} | _ \<Rightarrow> True"
    by (cases "state g1") (simp_all add: closed_when_done_def)
  from consume_ended [OF c] have 3: "state g1 = Completed \<longleftrightarrow> ended xs"
    by (simp add: streamQuery_def)
  have 4: "state g = SuspendedYield cur \<longrightarrow>
         gen_next env g w = loop env cur g w
         \<and> (case gen_return env g w of
               (x, g', w') \<Rightarrow>
                 state g' = Completed \<and> calls w' = calls w @ [CursorClose cur]
                 \<and> (x = Inr Done \<or> (\<exists>e'. x = Inl e')))
         \<and> (case gen_throw env e g w of
               (x, g', w') \<Rightarrow>
                 state g' = Completed \<and> calls w' = calls w @ [CursorClose cur]
                 \<and> (\<exists>e'. x = Inl e'))"
    by (auto simp: gen_next_def gen_return_def gen_throw_def dest!: finally_block_exit)
  have 5: "state g = SuspendedStart \<and> priv_options_cursor (this g) = Some ctor
        \<and> Number_isInteger (chunkSize g) \<and> \<not> le_zero (chunkSize g)
        \<and> new_cursor env
              (calls w @ [NewCursor ctor (sql (compiledQuery g)) (parameters (compiledQuery g))])
            = Inr c
        \<and> client_query_cursor env
              (calls w @ [NewCursor ctor (sql (compiledQuery g)) (parameters (compiledQuery g)),
                          ClientQueryCursor (priv_client (this g)) c])
            = Inr cur \<longrightarrow>
         gen_next env g w
           = loop env cur g
               (w\<lparr>calls := calls w
                    @ [NewCursor ctor (sql (compiledQuery g)) (parameters (compiledQuery g)),
                       ClientQueryCursor (priv_client (this g)) c]\<rparr>)"
    by (simp add: gen_next_def call_def Let_def)
  have 6: "state g = Completed \<longrightarrow>
         resume env r g w = (case r of Throw e' \<Rightarrow> Inl e' | _ \<Rightarrow> Inr Done, g, w)"
    by (cases r) (simp_all add: resume_def gen_next_def gen_return_def gen_throw_def)
  from c 1 2 3 loop_exits [where env = env and cur = cur and g = g and w = w] 4 5 6
  show ?thesis
    by simp
qed

theorem streamQuery_closes_cursor_witness:
  "consume (serving [1, 2, 3, 4, 5 :: nat]) [Next, Next, Next, Next]
       (streamQuery streaming \<lparr>sql = ''select'', parameters = []\<rparr> (Finite 2)) start
     = ([Inr (Value \<lparr>numUpdatedOrDeletedRows = None, numAffectedRows = None, rows = [1, 2]\<rparr>),
         Inr (Value \<lparr>numUpdatedOrDeletedRows = None, numAffectedRows = None, rows = [3, 4]\<rparr>),
         Inr (Value \<lparr>numUpdatedOrDeletedRows = None, numAffectedRows = None, rows = [5]\<rparr>),
         Inr Done],
        (streamQuery streaming \<lparr>sql = ''select'', parameters = []\<rparr> (Finite 2))
          \<lparr>state := Completed\<rparr>,
        \<lparr>calls = [NewCursor 0 ''select'' [], ClientQueryCursor 2 4, CursorRead 4 (Finite 2),
                  CursorRead 4 (Finite 2), CursorRead 4 (Finite 2), CursorRead 4 (Finite 2),
                  CursorClose 4],
          allocated = 0\<rparr>)
   \<and> consume (serving [1, 2, 3, 4, 5 :: nat]) [Next, Return, Next]
       (streamQuery streaming \<lparr>sql = ''select'', parameters = []\<rparr> (Finite 2)) start
     = ([Inr (Value \<lparr>numUpdatedOrDeletedRows = None, numAffectedRows = None, rows = [1, 2]\<rparr>),
         Inr Done, Inr Done],
        (streamQuery streaming \<lparr>sql = ''select'', parameters = []\<rparr> (Finite 2))
          \<lparr>state := Completed\<rparr>,
        \<lparr>calls = [NewCursor 0 ''select'' [], ClientQueryCursor 2 4, CursorRead 4 (Finite 2),
                  CursorClose 4],
          allocated = 0\<rparr>)
   \<and> consume (serving [1, 2, 3, 4, 5 :: nat]) [Next, Throw (Thrown 7), Next]
       (streamQuery streaming \<lparr>sql = ''select'', parameters = []\<rparr> (Finite 2)) start
     = ([Inr (Value \<lparr>numUpdatedOrDeletedRows = None, numAffectedRows = None, rows = [1, 2]\<rparr>),
         Inl (Thrown 7), Inr Done],
        (streamQuery streaming \<lparr>sql = ''select'', parameters = []\<rparr> (Finite 2))
          \<lparr>state := Completed\<rparr>,
        \<lparr>calls = [NewCursor 0 ''select'' [], ClientQueryCursor 2 4, CursorRead 4 (Finite 2),
                  CursorClose 4],
          allocated = 0\<rparr>)
   \<and> consume (failing_read :: nat natives) [Next, Next]
       (streamQuery streaming \<lparr>sql = ''select'', parameters = []\<rparr> (Finite 2)) start
     = ([Inl (Thrown 1), Inr Done],
        (streamQuery streaming \<lparr>sql = ''select'', parameters = []\<rparr> (Finite 2))
          \<lparr>state := Completed\<rparr>,
        \<lparr>calls = [NewCursor 0 ''select'' [], ClientQueryCursor 2 4, CursorRead 4 (Finite 2),
                  CursorClose 4],
          allocated = 0\<rparr>)
   \<and> state ((streamQuery streaming \<lparr>sql = ''select'', parameters = []\<rparr> (Finite 2))
               \<lparr>state := SuspendedYield 4\<rparr>) = SuspendedYield 4
   \<and> gen_throw (serving [1, 2, 3, 4, 5 :: nat]) (Thrown 7)
        ((streamQuery streaming \<lparr>sql = ''select'', parameters = []\<rparr> (Finite 2))
           \<lparr>state := SuspendedYield 4\<rparr>)
        (start\<lparr>calls := [NewCursor 0 ''select'' [], ClientQueryCursor 2 4,
                           CursorRead 4 (Finite 2)]\<rparr>)
     = (Inl (Thrown 7),
        (streamQuery streaming \<lparr>sql = ''select'', parameters = []\<rparr> (Finite 2))
          \<lparr>state := Completed\<rparr>,
        \<lparr>calls = [NewCursor 0 ''select'' [], ClientQueryCursor 2 4, CursorRead 4 (Finite 2),
                  CursorClose 4],
          allocated = 0\<rparr>)
   \<and> state (streamQuery streaming \<lparr>sql = ''select'', parameters = []\<rparr> (Finite 2))
       = SuspendedStart
   \<and> priv_options_cursor
       (this (streamQuery streaming \<lparr>sql = ''select'', parameters = []\<rparr> (Finite 2))) = Some 0
   \<and> Number_isInteger (Finite 2) \<and> \<not> le_zero (Finite 2)
   \<and> new_cursor (serving [1, 2, 3, 4, 5 :: nat]) [NewCursor 0 ''select'' []] = Inr 4
   \<and> client_query_cursor (serving [1, 2, 3, 4, 5 :: nat])
       [NewCursor 0 ''select'' [], ClientQueryCursor 2 4] = Inr 4
   \<and> state ((streamQuery streaming \<lparr>sql = ''select'', parameters = []\<rparr> (Finite 2))
               \<lparr>state := Completed\<rparr>) = Completed
   \<and> resume (serving [1, 2, 3, 4, 5 :: nat]) Return
        ((streamQuery streaming \<lparr>sql = ''select'', parameters = []\<rparr> (Finite 2))
           \<lparr>state := Completed\<rparr>) start
     = (Inr Done,
        (streamQuery streaming \<lparr>sql = ''select'', parameters = []\<rparr> (Finite 2))
          \<lparr>state := Completed\<rparr>, start)"
  using streamQuery_closes_cursor [of "serving [1, 2, 3, 4, 5 :: nat]" "[Next, Throw (Thrown 7), Next]"
      streaming "\<lparr>sql = ''select'', parameters = []\<rparr>" "Finite 2"]
  by (simp add: stream_defs serving_def failing_read_def obliging_def streaming_def start_def)

text \<open>
  C2: over a cursor that serves the rows \<open>xs\<close>, with a positive integer \<open>chunkSize\<close> = \<open>k\<close>, a
  consumer with enough fuel ends: it has received the batches of up to \<open>k\<close> rows of \<open>xs\<close>
  in order, one per non-empty read; every read asked for \<open>k\<close> rows; the read after the last
  batch gave zero rows and ended the sequence, and the cursor was closed. The batches are
  non-empty, have at most \<open>k\<close> rows and make up \<open>xs\<close>; for \<open>k = 2\<close> and five rows their
  sizes are 2, 2 and 1.
\<close>

theorem streamQuery_batches:
  assumes "0 < k" and "priv_options_cursor conn = Some ctor" and "length xs < fuel"
  shows "exhaust (serving xs) fuel (streamQuery conn q (Finite (of_nat k))) start
           = Some (Inr (map batch (batches_of k xs)),
                   (streamQuery conn q (Finite (of_nat k)))\<lparr>state := Completed\<rparr>,
                   \<lparr>calls = [NewCursor ctor (sql q) (parameters q),
                             ClientQueryCursor (priv_client conn) 4]
                      @ replicate (Suc (length (batches_of k xs))) (CursorRead 4 (Finite (of_nat k)))
                      @ [CursorClose 4],
                     allocated = 0\<rparr>)
     \<and> concat (batches_of k xs) = xs
     \<and> (\<forall>b \<in> set (batches_of k xs). b \<noteq> [] \<and> length b \<le> k)"
proof -
  let ?g = "streamQuery conn q (Finite (of_nat k))"
  let ?w = "\<lparr>calls = [NewCursor ctor (sql q) (parameters q),
                      ClientQueryCursor (priv_client conn) 4], allocated = 0\<rparr> :: 'a world"
  from assms(3) obtain f where fuel: "fuel = Suc f" by (cases fuel) simp_all
  have c: "chunkSize ?g = Finite (of_nat k)" by (simp add: streamQuery_def)
  have r: "sum_list (map requested (calls ?w)) = 0" by (simp add: requested_def)
  note l = loop_serving [OF assms(1) c r, of xs 4]
  from assms(1,2) have n: "gen_next (serving xs) ?g start = loop (serving xs) 4 ?g ?w"
    by (simp add: gen_next_def streamQuery_def Number_isInteger_def le_zero_def call_def
        serving_def obliging_def start_def)
  have e: "exhaust (serving xs) fuel ?g start
           = Some (Inr (map batch (batches_of k xs)), ?g\<lparr>state := Completed\<rparr>,
                   \<lparr>calls = [NewCursor ctor (sql q) (parameters q),
                             ClientQueryCursor (priv_client conn) 4]
                      @ replicate (Suc (length (batches_of k xs))) (CursorRead 4 (Finite (of_nat k)))
                      @ [CursorClose 4],
                     allocated = 0\<rparr>)"
  proof (cases "xs = []")
    case True
    with n l fuel show ?thesis
      by (simp add: batches_of.simps)
  next
    case False
    let ?g1 = "?g\<lparr>state := SuspendedYield 4\<rparr>"
    let ?w1 = "?w\<lparr>calls := calls ?w @ [CursorRead 4 (Finite (of_nat k))]\<rparr>"
    from False n l have s: "gen_next (serving xs) ?g start
        = (Inr (Value (batch (take k xs))), ?g1, ?w1)"
      by simp
    have 1: "chunkSize ?g1 = Finite (of_nat k)" by (simp add: streamQuery_def)
    have 2: "state ?g1 = SuspendedYield 4" by simp
    have 3: "sum_list (map requested (calls ?w1)) = k" by (simp add: requested_def)
    from False assms(1,3) fuel have 4: "length (drop k xs) < f" by (cases xs) auto
    note x = exhaust_serving [OF assms(1) 1 2 3 4]
    from False assms(1) have b: "batches_of k xs = take k xs # batches_of k (drop k xs)"
      by (subst batches_of.simps) simp
    show ?thesis
      unfolding fuel exhaust.simps s b using x
      by (simp add: replicate_append_same)
  qed
  from e concat_batches_of [OF assms(1)] batches_of_sizes show ?thesis
    by blast
qed

theorem streamQuery_batches_witness:
  "(0 :: nat) < 2 \<and> priv_options_cursor streaming = Some 0 \<and> length [1, 2, 3, 4, 5 :: nat] < 6
   \<and> exhaust (serving [1, 2, 3, 4, 5 :: nat]) 6
        (streamQuery streaming \<lparr>sql = ''select'', parameters = []\<rparr> (Finite 2)) start
       = Some (Inr [batch [1, 2], batch [3, 4], batch [5]],
               (streamQuery streaming \<lparr>sql = ''select'', parameters = []\<rparr> (Finite 2))
                 \<lparr>state := Completed\<rparr>,
               \<lparr>calls = [NewCursor 0 ''select'' [], ClientQueryCursor 2 4,
                         CursorRead 4 (Finite 2), CursorRead 4 (Finite 2),
                         CursorRead 4 (Finite 2), CursorRead 4 (Finite 2), CursorClose 4],
                 allocated = 0\<rparr>)
   \<and> map length (batches_of 2 [1, 2, 3, 4, 5 :: nat]) = [2, 2, 1]"
proof -
  have b: "batches_of 2 [1, 2, 3, 4, 5 :: nat] = [[1, 2], [3, 4], [5]]"
    by (simp add: batches_of.simps)
  have r: "replicate (Suc (length [[1, 2], [3, 4], [5 :: nat]])) x = [x, x, x, x]" for x :: 'a
    by (simp add: numeral_3_eq_3)
  have s: "priv_options_cursor streaming = Some 0" by (simp add: streaming_def)
  from streamQuery_batches [of 2 streaming 0 "[1, 2, 3, 4, 5 :: nat]" 6
      "\<lparr>sql = ''select'', parameters = []\<rparr>", unfolded b r] s
  show ?thesis
    unfolding b by (simp add: streaming_def)
qed






text \<open>
  C6: the body of the generator runs at the first \<open>next()\<close>, and the two checks come first,
  in this order. When no cursor constructor was configured that call fails with the
  \<open>Error\<close> naming the missing \<open>cursor\<close>, whatever \<open>chunkSize\<close> is. When \<open>chunkSize\<close> is zero,
  negative or not an integer (a fraction, \<open>NaN\<close> or an infinity) it fails too: with the
  \<open>Error\<close> about \<open>chunkSize\<close> when a cursor constructor was configured, and with the one
  about the cursor when both are wrong. In every case no native call is made (the world is
  unchanged) and the generator is completed.
\<close>

theorem streamQuery_preconditions:
  "(priv_options_cursor conn = None \<longrightarrow>
      gen_next env (streamQuery conn q n) w
        = (Inl (Error missing_cursor), (streamQuery conn q n)\<lparr>state := Completed\<rparr>, w))
   \<and> (x \<le> 0 \<or> x \<notin> \<int> \<longrightarrow>
      gen_next env (streamQuery conn q (Finite x)) w
        = (Inl (Error (if priv_options_cursor conn = None then missing_cursor else bad_chunkSize)),
           (streamQuery conn q (Finite x))\<lparr>state := Completed\<rparr>, w))
   \<and> (n = NaN \<or> n = PosInfinity \<or> n = NegInfinity \<longrightarrow>
      gen_next env (streamQuery conn q n) w
        = (Inl (Error (if priv_options_cursor conn = None then missing_cursor else bad_chunkSize)),
           (streamQuery conn q n)\<lparr>state := Completed\<rparr>, w))"
proof -
  have "x \<notin> \<int> \<Longrightarrow> \<not> Number_isInteger (Finite x)"
    by (auto simp: Number_isInteger_def Ints_def)
  moreover have "x \<le> 0 \<Longrightarrow> le_zero (Finite x)"
    by (simp add: le_zero_def)
  ultimately show ?thesis
    by (auto simp: gen_next_def streamQuery_def Number_isInteger_def split: option.splits)
qed

theorem streamQuery_preconditions_witness:
  "priv_options_cursor bare = None
   \<and> gen_next (obliging :: nat natives)
         (streamQuery bare \<lparr>sql = ''select 1'', parameters = []\<rparr> (Finite 2)) start
       = (Inl (Error missing_cursor),
          (streamQuery bare \<lparr>sql = ''select 1'', parameters = []\<rparr> (Finite 2))\<lparr>state := Completed\<rparr>,
          start)
   \<and> priv_options_cursor streaming \<noteq> None \<and> (5 / 2 :: rat) \<notin> \<int>
   \<and> gen_next (obliging :: nat natives)
         (streamQuery streaming \<lparr>sql = ''select 1'', parameters = []\<rparr> (Finite (5 / 2))) start
       = (Inl (Error bad_chunkSize),
          (streamQuery streaming \<lparr>sql = ''select 1'', parameters = []\<rparr> (Finite (5 / 2)))
            \<lparr>state := Completed\<rparr>,
          start)
   \<and> gen_next (obliging :: nat natives)
         (streamQuery streaming \<lparr>sql = ''select 1'', parameters = []\<rparr> NaN) start
       = (Inl (Error bad_chunkSize),
          (streamQuery streaming \<lparr>sql = ''select 1'', parameters = []\<rparr> NaN)\<lparr>state := Completed\<rparr>,
          start)
   \<and> (0 :: rat) \<le> 0
   \<and> gen_next (obliging :: nat natives)
         (streamQuery streaming \<lparr>sql = ''select 1'', parameters = []\<rparr> (Finite 0)) start
       = (Inl (Error bad_chunkSize),
          (streamQuery streaming \<lparr>sql = ''select 1'', parameters = []\<rparr> (Finite 0))
            \<lparr>state := Completed\<rparr>,
          start)
   \<and> gen_next (obliging :: nat natives)
         (streamQuery bare \<lparr>sql = ''select 1'', parameters = []\<rparr> (Finite 0)) start
       = (Inl (Error missing_cursor),
          (streamQuery bare \<lparr>sql = ''select 1'', parameters = []\<rparr> (Finite 0))\<lparr>state := Completed\<rparr>,
          start)"
proof -
  have 1: "priv_options_cursor bare = None" by (simp add: bare_def)
  have 2: "priv_options_cursor streaming \<noteq> None" by (simp add: streaming_def)
  have 3: "(0 :: rat) \<le> 0" by simp
  note t = streamQuery_preconditions [of bare "obliging :: nat natives"
      "\<lparr>sql = ''select 1'', parameters = []\<rparr>" "Finite 2" start 0]
  note u = streamQuery_preconditions [of streaming "obliging :: nat natives"
      "\<lparr>sql = ''select 1'', parameters = []\<rparr>" NaN start "5 / 2"]
  note v = streamQuery_preconditions [of streaming "obliging :: nat natives"
      "\<lparr>sql = ''select 1'', parameters = []\<rparr>" NaN start 0]
  from 1 2 3 half_not_int t u v show ?thesis by auto
qed

section \<open>Drop-constraint nodes\<close>

text \<open>
  C9: for every string \<open>name\<close>, \<open>dropConstraintNode.create(name)\<close> is a frozen node whose
  \<open>kind\<close> is \<open>'DropConstraintNode'\<close> and whose only child is the identifier node created
  from \<open>name\<close> (under the property \<open>constraintName\<close>); \<open>dropConstraintNode.is(n)\<close> is true
  exactly when the \<open>kind\<close> of \<open>n\<close> is \<open>'DropConstraintNode'\<close>.
\<close>

theorem dropConstraintNode_create_is:
  "frozen (dropConstraintNode_create idn name)
   \<and> get_prop (dropConstraintNode_create idn name) ''kind'' = Some (PString ''DropConstraintNode'')
   \<and> child_nodes (dropConstraintNode_create idn name) = [idn name]
   \<and> get_prop (dropConstraintNode_create idn name) ''constraintName'' = Some (PObject (idn name))
   \<and> map fst (properties (dropConstraintNode_create idn name)) = [''kind'', ''constraintName'']
   \<and> dropConstraintNode_is (dropConstraintNode_create idn name)
   \<and> (dropConstraintNode_is n \<longleftrightarrow> get_prop n ''kind'' = Some (PString ''DropConstraintNode''))"
  by (simp add: dropConstraintNode_create_def dropConstraintNode_is_def freeze_def
      get_prop_def child_nodes_def)

end
